theory Spec2Isabelle
  imports Main "HOL-Library.Sublist"
begin

section \<open>JavaScript values, exceptions and the platform\<close>

text \<open>
  The values that \<^verbatim>\<open>JSON.parse\<close> returns and that the field projector walks.
  Numbers are integers here; an object is the list of its own enumerable entries in the
  order of \<^verbatim>\<open>Object.entries\<close>. In that list no key occurs twice, and the keys that
  are array indices come first, in ascending order; a list that is not of this form
  stands for no object.
\<close>

datatype jsval =
    Undefined
  | Null
  | Bool bool
  | Num int
  | Str string
  | Arr "jsval list"
  | Obj "(string \<times> jsval) list"

text \<open>
  The exceptions that the modelled code can raise. None of them is caught inside
  \<^verbatim>\<open>util.js\<close> on the paths modelled here.
\<close>

datatype error =
    JSON_SyntaxError      \<comment> \<open>\<^verbatim>\<open>JSON.parse\<close> on text that is not JSON\<close>
  | RegExp_SyntaxError    \<comment> \<open>the \<^verbatim>\<open>RegExp\<close> constructor on an invalid pattern\<close>
  | Invalid_URL           \<comment> \<open>the \<^verbatim>\<open>URL\<close> constructor on text that is no absolute URL\<close>
  | Invalid_Arg_Type      \<comment> \<open>\<^verbatim>\<open>path.resolve\<close> on an argument that is no string\<close>
  | Not_A_Function        \<comment> \<open>calling a method the receiver does not have\<close>
  | Undefined_Read        \<comment> \<open>reading a property of \<^verbatim>\<open>undefined\<close> or \<^verbatim>\<open>null\<close>\<close>
  | Unsupported_Pattern   \<comment> \<open>a pattern outside the fragment of regular expressions modelled below\<close>

text \<open>A string used as a condition: \<^verbatim>\<open>undefined\<close> and the empty string are falsy.\<close>

definition truthy :: "string option \<Rightarrow> bool" where
  "truthy s = (case s of None \<Rightarrow> False | Some x \<Rightarrow> x \<noteq> [])"

text \<open>String conversion of a value that may be \<^verbatim>\<open>undefined\<close>.\<close>

definition js_string :: "string option \<Rightarrow> string" where
  "js_string s = (case s of None \<Rightarrow> ''undefined'' | Some x \<Rightarrow> x)"

subsection \<open>Feed documents\<close>

record enclosure_ref =
  enc_url :: "string option"
  enc_type :: "string option"

record image_ref =
  img_url :: "string option"
  img_link :: "string option"

record itunes_ns =
  itunes_image :: "string option"

record extra_download =
  dl_url :: string
  outputPath :: string
  dl_key :: string

text \<open>
  A feed item as \<^verbatim>\<open>rss-parser\<close> delivers it, with the fields the selection reads, and
  the two fields the selection writes: \<^verbatim>\<open>_originalIndex\<close> and \<^verbatim>\<open>_extra_downloads\<close>.
\<close>

record rss_item =
  title :: "string option"
  pubDate :: "string option"
  link :: "string option"
  enclosure :: "enclosure_ref option"
  item_image :: "image_ref option"
  itunes :: "itunes_ns option"
  guid :: "string option"
  originalIndex :: "int option"
  extra_downloads :: "extra_download list option"

record rss_feed =
  feed_title :: "string option"
  items :: "rss_item list"

text \<open>
  The \<^verbatim>\<open>ext\<close> that \<^verbatim>\<open>getEpisodeAudioUrlAndExt\<close> returns: \<^verbatim>\<open>null\<close>, the text of an
  extension, or a value that is no text. The last arises from the lookup
  \<^verbatim>\<open>AUDIO_TYPES_TO_EXTS[enclosure.type]\<close>, which also finds what every object inherits
  from \<^verbatim>\<open>Object.prototype\<close>: under the type \<^verbatim>\<open>constructor\<close> it gives the function
  \<^verbatim>\<open>Object\<close>. \<open>Inherited name\<close> is the member of \<^verbatim>\<open>Object.prototype\<close> of that name.
\<close>

datatype ext_value =
    NoExt
  | Ext string
  | Inherited string

text \<open>
  What the code calls from outside \<^verbatim>\<open>util.js\<close>: Node's \<^verbatim>\<open>path\<close>,
  \<^verbatim>\<open>JSON\<close>, \<^verbatim>\<open>URL\<close>, \<^verbatim>\<open>Date\<close> and \<^verbatim>\<open>RegExp\<close>, and the two functions of
  \<^verbatim>\<open>naming.js\<close>. A call that can throw returns an option, \<open>None\<close> where it throws.
  The local time zone enters through \<^verbatim>\<open>Date.prototype.setHours\<close> alone:
  \<open>setHours_0 t\<close> is the time value of a \<^verbatim>\<open>Date\<close> of time value \<open>t\<close> after
  \<^verbatim>\<open>setHours(0, 0, 0, 0)\<close>, and \<open>setHours_23 t\<close> its time value after
  \<^verbatim>\<open>setHours(23, 59, 59, 999)\<close>; nothing is assumed about the zone.
  \<open>RegExp_new\<close> stands for the constructor on the pattern a user gives for
  episode titles, which can be any pattern; it returns the pattern's \<^verbatim>\<open>test\<close>.
  \<open>getArchiveFilename\<close> takes \<^verbatim>\<open>pubDate\<close>, \<^verbatim>\<open>name\<close> and \<^verbatim>\<open>ext\<close>; \<open>getFilename\<close> takes
  \<^verbatim>\<open>item\<close>, \<^verbatim>\<open>feed\<close>, \<^verbatim>\<open>url\<close>, \<^verbatim>\<open>ext\<close> and \<^verbatim>\<open>template\<close>.
\<close>

record platform =
  cwd :: string
  path_resolve :: "string list \<Rightarrow> string"
  JSON_parse :: "string \<Rightarrow> jsval option"
  JSON_stringify :: "jsval \<Rightarrow> string"
  URL_pathname :: "string \<Rightarrow> string option"
  path_extname :: "string \<Rightarrow> string"
  Date_parse :: "string \<Rightarrow> int option"
  setHours_0 :: "int \<Rightarrow> int"
  setHours_23 :: "int \<Rightarrow> int"
  RegExp_new :: "string \<Rightarrow> (string \<Rightarrow> bool) option"
  getArchiveFilename :: "string option \<Rightarrow> string option \<Rightarrow> ext_value \<Rightarrow> string"
  getFilename :: "rss_item \<Rightarrow> rss_feed \<Rightarrow> string option \<Rightarrow> string \<Rightarrow> string \<Rightarrow> string"

text \<open>The files of the disk: a path has a content or does not exist.\<close>

type_synonym filesystem = "string \<Rightarrow> string option"

section \<open>The archive ledger\<close>

definition getArchiveKey :: "string \<Rightarrow> string \<Rightarrow> string" where
  "getArchiveKey pfx name = pfx @ ''-'' @ name"

definition getArchive :: "platform \<Rightarrow> filesystem \<Rightarrow> string \<Rightarrow> error + jsval" where
  "getArchive P fs archive =
     (let archivePath = path_resolve P [cwd P, archive] in
      case fs archivePath of
        None \<Rightarrow> Inr (Arr [])
      | Some content \<Rightarrow>
          (case JSON_parse P content of
             None \<Rightarrow> Inl JSON_SyntaxError
           | Some v \<Rightarrow> Inr v))"

text \<open>
  \<^verbatim>\<open>archiveResult.includes(key)\<close>: membership for an array, substring for a string, and
  a \<^verbatim>\<open>TypeError\<close> for every other value that \<^verbatim>\<open>JSON.parse\<close> can return.
\<close>

definition js_includes :: "jsval \<Rightarrow> string \<Rightarrow> error + bool" where
  "js_includes v key =
     (case v of
        Arr xs \<Rightarrow> Inr (Str key \<in> set xs)
      | Str s \<Rightarrow> Inr (sublist key s)
      | Undefined \<Rightarrow> Inl Undefined_Read
      | Null \<Rightarrow> Inl Undefined_Read
      | _ \<Rightarrow> Inl Not_A_Function)"

definition js_push :: "jsval \<Rightarrow> string \<Rightarrow> error + jsval" where
  "js_push v key =
     (case v of
        Arr xs \<Rightarrow> Inr (Arr (xs @ [Str key]))
      | Undefined \<Rightarrow> Inl Undefined_Read
      | Null \<Rightarrow> Inl Undefined_Read
      | _ \<Rightarrow> Inl Not_A_Function)"

definition writeToArchive ::
  "platform \<Rightarrow> filesystem \<Rightarrow> string \<Rightarrow> string \<Rightarrow> error + filesystem" where
  "writeToArchive P fs key archive =
     (let archivePath = path_resolve P [cwd P, archive] in
      case getArchive P fs archive of
        Inl e \<Rightarrow> Inl e
      | Inr archiveResult \<Rightarrow>
          (case js_includes archiveResult key of
             Inl e \<Rightarrow> Inl e
           | Inr present \<Rightarrow>
               (case (if \<not> present then js_push archiveResult key else Inr archiveResult) of
                  Inl e \<Rightarrow> Inl e
                | Inr archiveResult' \<Rightarrow>
                    Inr (fs(archivePath \<mapsto> JSON_stringify P archiveResult')))))"

definition getIsInArchive ::
  "platform \<Rightarrow> filesystem \<Rightarrow> string \<Rightarrow> string \<Rightarrow> error + bool" where
  "getIsInArchive P fs key archive =
     (case getArchive P fs archive of
        Inl e \<Rightarrow> Inl e
      | Inr archiveResult \<Rightarrow> js_includes archiveResult key)"

section \<open>Calendar days\<close>

text \<open>
  A \<^verbatim>\<open>Date\<close> is its time value in milliseconds since the epoch, or invalid (\<^verbatim>\<open>NaN\<close>).
  \<^verbatim>\<open>dayjs\<close> works in the local time zone. Its \<^verbatim>\<open>startOf("day")\<close> and
  \<^verbatim>\<open>endOf("day")\<close> copy the date and call \<^verbatim>\<open>setHours(0, 0, 0, 0)\<close> and
  \<^verbatim>\<open>setHours(23, 59, 59, 999)\<close> on the copy; an invalid date stays invalid. Its
  comparisons are those of its source: \<^verbatim>\<open>isSame\<close> is
  \<^verbatim>\<open>this.startOf(u) <= that && that <= this.endOf(u)\<close>, \<^verbatim>\<open>isBefore\<close> is
  \<^verbatim>\<open>this.endOf(u) < that\<close>, \<^verbatim>\<open>isAfter\<close> is \<^verbatim>\<open>that < this.startOf(u)\<close>, and every
  comparison with an invalid date is false.
\<close>

type_synonym date = "int option"

definition new_Date :: "platform \<Rightarrow> string option \<Rightarrow> date" where
  "new_Date P s = (case s of None \<Rightarrow> None | Some x \<Rightarrow> Date_parse P x)"

definition startOf_day :: "platform \<Rightarrow> date \<Rightarrow> date" where
  "startOf_day P d = map_option (setHours_0 P) d"

definition endOf_day :: "platform \<Rightarrow> date \<Rightarrow> date" where
  "endOf_day P d = map_option (setHours_23 P) d"

definition js_le :: "date \<Rightarrow> date \<Rightarrow> bool" where
  "js_le a b = (case (a, b) of (Some x, Some y) \<Rightarrow> x \<le> y | _ \<Rightarrow> False)"

definition js_lt :: "date \<Rightarrow> date \<Rightarrow> bool" where
  "js_lt a b = (case (a, b) of (Some x, Some y) \<Rightarrow> x < y | _ \<Rightarrow> False)"

definition isSame_day :: "platform \<Rightarrow> date \<Rightarrow> date \<Rightarrow> bool" where
  "isSame_day P this that = (js_le (startOf_day P this) that \<and> js_le that (endOf_day P this))"

definition isBefore_day :: "platform \<Rightarrow> date \<Rightarrow> date \<Rightarrow> bool" where
  "isBefore_day P this that = js_lt (endOf_day P this) that"

definition isAfter_day :: "platform \<Rightarrow> date \<Rightarrow> date \<Rightarrow> bool" where
  "isAfter_day P this that = js_lt that (startOf_day P this)"

section \<open>Media references\<close>

definition getUrlExt :: "platform \<Rightarrow> string option \<Rightarrow> error + string" where
  "getUrlExt P url =
     (case URL_pathname P (js_string url) of
        None \<Rightarrow> Inl Invalid_URL
      | Some pathname \<Rightarrow> if pathname = [] then Inr [] else Inr (path_extname P pathname))"

definition AUDIO_TYPES_TO_EXTS :: "(string \<times> string) list" where
  "AUDIO_TYPES_TO_EXTS =
     [(''audio/mpeg'', ''.mp3''),
      (''audio/mp3'', ''.mp3''),
      (''audio/flac'', ''.flac''),
      (''audio/ogg'', ''.ogg''),
      (''audio/vorbis'', ''.ogg''),
      (''audio/mp4'', ''.m4a''),
      (''audio/wav'', ''.wav''),
      (''audio/x-wav'', ''.wav''),
      (''audio/aac'', ''.aac'')]"

definition VALID_AUDIO_EXTS :: "string list" where
  "VALID_AUDIO_EXTS = remdups (map snd AUDIO_TYPES_TO_EXTS)"

definition getIsAudioUrl :: "platform \<Rightarrow> string option \<Rightarrow> error + bool" where
  "getIsAudioUrl P url =
     (case getUrlExt P url of
        Inl e \<Rightarrow> Inl e
      | Inr ext \<Rightarrow> if ext = [] then Inr False else Inr (ext \<in> set VALID_AUDIO_EXTS))"

text \<open>
  The names of the members of \<^verbatim>\<open>Object.prototype\<close>, which the object
  \<^verbatim>\<open>AUDIO_TYPES_TO_EXTS\<close> inherits. Each of them is a function or an object, hence truthy.
\<close>

definition OBJECT_PROTOTYPE_KEYS :: "string list" where
  "OBJECT_PROTOTYPE_KEYS =
     [''constructor'', ''__defineGetter__'', ''__defineSetter__'', ''hasOwnProperty'',
      ''__lookupGetter__'', ''__lookupSetter__'', ''isPrototypeOf'', ''propertyIsEnumerable'',
      ''toString'', ''valueOf'', ''__proto__'', ''toLocaleString'']"

text \<open>
  \<^verbatim>\<open>AUDIO_TYPES_TO_EXTS[type]\<close>: an own entry, else an inherited member, else
  \<^verbatim>\<open>undefined\<close>.
\<close>

definition audioTypeLookup :: "string \<Rightarrow> ext_value option" where
  "audioTypeLookup type' =
     (case map_of AUDIO_TYPES_TO_EXTS type' of
        Some ext \<Rightarrow> Some (Ext ext)
      | None \<Rightarrow> if type' \<in> set OBJECT_PROTOTYPE_KEYS then Some (Inherited type') else None)"

text \<open>
  The three sources of the media reference, in the order of the code: the link, the
  enclosure's address, the enclosure's declared type. The result is the pair
  \<^verbatim>\<open>{url, ext}\<close>, both \<^verbatim>\<open>null\<close> when nothing applies.
\<close>

definition byEnclosureType :: "rss_item \<Rightarrow> string option \<times> ext_value" where
  "byEnclosureType it =
     (case enclosure it of
        None \<Rightarrow> (None, NoExt)
      | Some enc \<Rightarrow>
          if truthy (enc_url enc) then
            (case audioTypeLookup (js_string (enc_type enc)) of
               None \<Rightarrow> (None, NoExt)
             | Some ext \<Rightarrow> (enc_url enc, ext))
          else (None, NoExt))"

definition byEnclosureUrl :: "platform \<Rightarrow> rss_item \<Rightarrow> error + string option \<times> ext_value" where
  "byEnclosureUrl P it =
     (case enclosure it of
        None \<Rightarrow> Inr (byEnclosureType it)
      | Some enc \<Rightarrow>
          (case getIsAudioUrl P (enc_url enc) of
             Inl e \<Rightarrow> Inl e
           | Inr isAudio \<Rightarrow>
               if isAudio then
                 (case getUrlExt P (enc_url enc) of
                    Inl e \<Rightarrow> Inl e
                  | Inr ext \<Rightarrow> Inr (enc_url enc, Ext ext))
               else Inr (byEnclosureType it)))"

definition getEpisodeAudioUrlAndExt ::
  "platform \<Rightarrow> rss_item \<Rightarrow> error + string option \<times> ext_value" where
  "getEpisodeAudioUrlAndExt P it =
     (if truthy (link it) then
        (case getIsAudioUrl P (link it) of
           Inl e \<Rightarrow> Inl e
         | Inr isAudio \<Rightarrow>
             if isAudio then
               (case getUrlExt P (link it) of
                  Inl e \<Rightarrow> Inl e
                | Inr ext \<Rightarrow> Inr (link it, Ext ext))
             else byEnclosureUrl P it)
      else byEnclosureUrl P it)"

definition getImageUrl :: "image_ref option \<Rightarrow> itunes_ns option \<Rightarrow> string option" where
  "getImageUrl img itn =
     (if (case img of None \<Rightarrow> False | Some i \<Rightarrow> truthy (img_url i)) then
        (case img of None \<Rightarrow> None | Some i \<Rightarrow> img_url i)
      else if (case img of None \<Rightarrow> False | Some i \<Rightarrow> truthy (img_link i)) then
        (case img of None \<Rightarrow> None | Some i \<Rightarrow> img_link i)
      else if (case itn of None \<Rightarrow> False | Some n \<Rightarrow> truthy (itunes_image n)) then
        (case itn of None \<Rightarrow> None | Some n \<Rightarrow> itunes_image n)
      else None)"

section \<open>Entry selection\<close>

text \<open>The argument object of \<^verbatim>\<open>getItemsToDownload\<close>.\<close>

record params =
  archive :: "string option"
  archiveUrl :: string
  basePath :: string
  feed :: rss_feed
  limit :: "int option"
  offset :: int
  reverse :: bool
  before :: "string option"
  after :: "string option"
  episodeRegex :: "string option"
  episodeTemplate :: string
  includeEpisodeImages :: bool

text \<open>
  \<^verbatim>\<open>getLoopControls\<close> returns a start index and two closures, \<^verbatim>\<open>shouldGo\<close> and
  \<^verbatim>\<open>next\<close>. Each closure is one of two functions, fixed by the direction and the one
  constant it captures (\<^verbatim>\<open>min = -1\<close> or \<^verbatim>\<open>max = length\<close>); the record keeps the
  direction and the constant, and \<open>shouldGo\<close> and \<open>next_index\<close> apply them.
\<close>

record loop_controls =
  startIndex :: int
  descending :: bool
  bound :: int

definition getLoopControls :: "int \<Rightarrow> int \<Rightarrow> bool \<Rightarrow> loop_controls" where
  "getLoopControls offset' length' reverse' =
     (if reverse' then
        \<lparr>startIndex = length' - 1 - offset', descending = True, bound = - 1\<rparr>
      else
        \<lparr>startIndex = 0 + offset', descending = False, bound = length'\<rparr>)"

definition shouldGo :: "loop_controls \<Rightarrow> int \<Rightarrow> bool" where
  "shouldGo ctl i = (if descending ctl then i > bound ctl else i < bound ctl)"

definition next_index :: "loop_controls \<Rightarrow> int \<Rightarrow> int" where
  "next_index ctl i = (if descending ctl then i - 1 else i + 1)"

text \<open>
  The three guarded blocks on \<^verbatim>\<open>isValid\<close>. The regular expression is constructed
  before the title is looked at, so an invalid pattern throws for every visited entry.
\<close>

definition regexPredicate :: "platform \<Rightarrow> string option \<Rightarrow> string option \<Rightarrow> error + bool" where
  "regexPredicate P episodeRegex' title' =
     (case episodeRegex' of
        None \<Rightarrow> Inr True
      | Some re \<Rightarrow>
          if re = [] then Inr True
          else
            (case RegExp_new P re of
               None \<Rightarrow> Inl RegExp_SyntaxError
             | Some test \<Rightarrow>
                 (case title' of
                    None \<Rightarrow> Inr True
                  | Some t \<Rightarrow> if t \<noteq> [] \<and> \<not> test t then Inr False else Inr True)))"

definition excludedByBefore :: "platform \<Rightarrow> date \<Rightarrow> date \<Rightarrow> bool" where
  "excludedByBefore P pubDateDay beforeDateDay =
     (\<not> isSame_day P pubDateDay beforeDateDay \<and> \<not> isBefore_day P pubDateDay beforeDateDay)"

definition excludedByAfter :: "platform \<Rightarrow> date \<Rightarrow> date \<Rightarrow> bool" where
  "excludedByAfter P pubDateDay afterDateDay =
     (\<not> isSame_day P pubDateDay afterDateDay \<and> \<not> isAfter_day P pubDateDay afterDateDay)"

definition beforePredicate :: "platform \<Rightarrow> string option \<Rightarrow> date \<Rightarrow> bool" where
  "beforePredicate P before' pubDateDay =
     (if truthy before' then \<not> excludedByBefore P pubDateDay (new_Date P before') else True)"

definition afterPredicate :: "platform \<Rightarrow> string option \<Rightarrow> date \<Rightarrow> bool" where
  "afterPredicate P after' pubDateDay =
     (if truthy after' then \<not> excludedByAfter P pubDateDay (new_Date P after') else True)"

text \<open>
  The block that runs for a valid entry: the two annotations and, when episode images
  are asked for and the entry has one, the descriptor of the image download.
  \<^verbatim>\<open>path.resolve\<close> throws on an entry without \<^verbatim>\<open>guid\<close>. The source writes the
  annotations into the entry object of the feed and pushes that object; here the
  annotated entry is a new value, and the feed that \<open>getFilename\<close> is given is the
  feed as it came.
\<close>

definition annotate ::
  "platform \<Rightarrow> params \<Rightarrow> string option \<Rightarrow> int \<Rightarrow> rss_item \<Rightarrow> error + rss_item" where
  "annotate P q episodeAudioUrl i it0 =
     (let it = it0\<lparr>originalIndex := Some i, extra_downloads := Some []\<rparr> in
      if includeEpisodeImages q then
        (case getImageUrl (item_image it) (itunes it) of
           None \<Rightarrow> Inr it
         | Some episodeImageUrl \<Rightarrow>
             (case getUrlExt P (Some episodeImageUrl) of
                Inl e \<Rightarrow> Inl e
              | Inr episodeImageFileExt \<Rightarrow>
                  (let episodeImageArchiveKey =
                         getArchiveKey (archiveUrl q)
                           (getArchiveFilename P (pubDate it) (title it) (Ext episodeImageFileExt));
                       episodeImageName =
                         getFilename P it (feed q) episodeAudioUrl episodeImageFileExt
                           (episodeTemplate q)
                   in case guid it of
                        None \<Rightarrow> Inl Invalid_Arg_Type
                      | Some g \<Rightarrow>
                          Inr (it\<lparr>extra_downloads :=
                                 Some [\<lparr>dl_url = episodeImageUrl,
                                        outputPath = path_resolve P [basePath q, g, episodeImageName],
                                        dl_key = episodeImageArchiveKey\<rparr>]\<rparr>))))
      else Inr it)"

text \<open>
  One pass of the loop body at index \<open>i\<close>: \<open>Inr None\<close> when the entry is not valid,
  \<open>Inr (Some item)\<close> when it is pushed, \<open>Inl\<close> when a call throws. Reading an index
  outside the array gives \<^verbatim>\<open>undefined\<close>, whose destructuring throws.
\<close>

definition loopBody :: "platform \<Rightarrow> params \<Rightarrow> jsval \<Rightarrow> int \<Rightarrow> error + rss_item option" where
  "loopBody P q savedArchive i =
     (if i < 0 \<or> int (length (items (feed q))) \<le> i then Inl Undefined_Read
      else
        (let it = items (feed q) ! nat i;
             pubDateDay = new_Date P (pubDate it)
         in case regexPredicate P (episodeRegex q) (title it) of
              Inl e \<Rightarrow> Inl e
            | Inr byRegex \<Rightarrow>
                (case getEpisodeAudioUrlAndExt P it of
                   Inl e \<Rightarrow> Inl e
                 | Inr (episodeAudioUrl, audioFileExt) \<Rightarrow>
                     (let key = getArchiveKey (archiveUrl q)
                                  (getArchiveFilename P (pubDate it) (title it) audioFileExt)
                      in case js_includes savedArchive key of
                           Inl e \<Rightarrow> Inl e
                         | Inr archived \<Rightarrow>
                             if byRegex \<and> beforePredicate P (before q) pubDateDay
                                \<and> afterPredicate P (after q) pubDateDay \<and> \<not> archived
                             then map_sum id Some (annotate P q episodeAudioUrl i it)
                             else Inr None))))"

text \<open>
  The \<^verbatim>\<open>while\<close> loop. \<open>vis\<close> lists the indices at which the body was entered; the source
  has no such variable, and nothing in the loop reads it.
\<close>

function whileLoop ::
  "loop_controls \<Rightarrow> (int \<Rightarrow> error + rss_item option) \<Rightarrow> int \<Rightarrow> int list \<Rightarrow> rss_item list
     \<Rightarrow> error + int list \<times> rss_item list" where
  "whileLoop ctl body i vis acc =
     (if shouldGo ctl i then
        (case body i of
           Inl e \<Rightarrow> Inl e
         | Inr r \<Rightarrow>
             whileLoop ctl body (next_index ctl i) (vis @ [i])
               (case r of None \<Rightarrow> acc | Some it \<Rightarrow> acc @ [it]))
      else Inr (vis, acc))"
  by pat_completeness auto
termination
  by (relation "measure (\<lambda>(ctl, body, i, vis, acc).
        if descending ctl then nat (i - bound ctl) else nat (bound ctl - i))")
     (auto simp: shouldGo_def next_index_def)

text \<open>\<^verbatim>\<open>items.slice(0, limit)\<close>: a negative end counts from the end of the array.\<close>

definition slice0 :: "'a list \<Rightarrow> int \<Rightarrow> 'a list" where
  "slice0 xs n = (if n < 0 then take (nat (int (length xs) + n)) xs else take (nat n) xs)"

definition applyLimit :: "int option \<Rightarrow> 'a list \<Rightarrow> 'a list" where
  "applyLimit limit' xs =
     (case limit' of None \<Rightarrow> xs | Some n \<Rightarrow> if n = 0 then xs else slice0 xs n)"

definition loadSavedArchive :: "platform \<Rightarrow> filesystem \<Rightarrow> string option \<Rightarrow> error + jsval" where
  "loadSavedArchive P fs archive' =
     (case archive' of
        None \<Rightarrow> Inr (Arr [])
      | Some a \<Rightarrow> if a = [] then Inr (Arr []) else getArchive P fs a)"

text \<open>
  \<open>getItemsToDownload_traced\<close> returns the visited indices beside the result;
  \<open>getItemsToDownload\<close> is the function of the source.
\<close>

definition getItemsToDownload_traced ::
  "platform \<Rightarrow> filesystem \<Rightarrow> params \<Rightarrow> error + int list \<times> rss_item list" where
  "getItemsToDownload_traced P fs q =
     (let ctl = getLoopControls (offset q) (int (length (items (feed q)))) (reverse q) in
      case loadSavedArchive P fs (archive q) of
        Inl e \<Rightarrow> Inl e
      | Inr savedArchive \<Rightarrow>
          (case whileLoop ctl (loopBody P q savedArchive) (startIndex ctl) [] [] of
             Inl e \<Rightarrow> Inl e
           | Inr (vis, selected) \<Rightarrow> Inr (vis, applyLimit (limit q) selected)))"

definition getItemsToDownload ::
  "platform \<Rightarrow> filesystem \<Rightarrow> params \<Rightarrow> error + rss_item list" where
  "getItemsToDownload P fs q = map_sum id snd (getItemsToDownload_traced P fs q)"

section \<open>The start of a download run\<close>

text \<open>
  How the part of \<^verbatim>\<open>main\<close> that selects the entries ends: the process exits with a
  status and a logged message, an exception escapes \<^verbatim>\<open>main\<close>, or the run goes on to
  download the selected entries.
\<close>

datatype outcome =
    Exited nat string
  | Uncaught error
  | Proceed "rss_item list"

text \<open>
  Modelled from the spec: \<^verbatim>\<open>logErrorAndExit\<close> of \<^verbatim>\<open>logger.js\<close>, which is not among the
  sources. The spec's fatal errors "terminate the process with a non-zero status";
  the status is taken as 1.
\<close>

definition logErrorAndExit :: "string \<Rightarrow> outcome" where
  "logErrorAndExit msg = Exited 1 msg"

text \<open>
  \<^verbatim>\<open>main\<close> from its check \<^verbatim>\<open>!feed.items || feed.items.length === 0\<close> to the check of
  \<^verbatim>\<open>targetItems.length\<close>. This part runs when neither \<^verbatim>\<open>--info\<close> nor \<^verbatim>\<open>--list\<close> is
  given; with one of them \<^verbatim>\<open>main\<close> exits before.
\<close>

definition main_selection :: "platform \<Rightarrow> filesystem \<Rightarrow> params \<Rightarrow> outcome" where
  "main_selection P fs q =
     (if items (feed q) = [] then logErrorAndExit ''No episodes found to download''
      else if int (length (items (feed q))) \<le> offset q then
        logErrorAndExit ''--offset too large. No episodes to download.''
      else
        (case getItemsToDownload P fs q of
           Inl e \<Rightarrow> Uncaught e
         | Inr targetItems \<Rightarrow>
             if targetItems = [] then
               logErrorAndExit ''No episodes found with provided criteria to download''
             else Proceed targetItems))"

section \<open>Field projection\<close>

subsection \<open>From a glob to the source text of a regular expression\<close>

definition backslash :: char where
  "backslash = CHR 0x5C"

text \<open>The characters of the class \<^verbatim>\<open>[.+?^${}()|[\]\\]\<close>.\<close>

definition regexSpecials :: "char list" where
  "regexSpecials = ''.+?^${}()|[]'' @ [backslash]"

text \<open>The global replace: every character of the class gets a backslash in front.\<close>

definition escapeSpecials :: "string \<Rightarrow> string" where
  "escapeSpecials glob =
     concat (map (\<lambda>c. if c \<in> set regexSpecials then [backslash, c] else [c]) glob)"

text \<open>
  \<^verbatim>\<open>String.prototype.replace\<close> with a string to search for: the first occurrence is
  replaced, later ones are kept.
\<close>

fun replaceFirst :: "string \<Rightarrow> string \<Rightarrow> string \<Rightarrow> string" where
  "replaceFirst pat rep [] = (if pat = [] then rep else [])"
| "replaceFirst pat rep (c # cs) =
     (if prefix pat (c # cs) then rep @ drop (length pat) (c # cs)
      else c # replaceFirst pat rep cs)"

definition globSource :: "string \<Rightarrow> string" where
  "globSource glob =
     ''^'' @ replaceFirst ''*'' ''[^.]+'' (replaceFirst ''**'' ''.+'' (escapeSpecials glob)) @ ''$''"

subsection \<open>The regular expressions that globs give\<close>

text \<open>
  The source texts built above use a small part of the syntax: an escaped special
  character, a plain character, \<^verbatim>\<open>.\<close> and \<^verbatim>\<open>[^.]\<close>, each once or under \<^verbatim>\<open>+\<close> or
  \<^verbatim>\<open>*\<close>, between \<^verbatim>\<open>^\<close> and \<^verbatim>\<open>$\<close>. \<open>RegExp\<close> reads this part as the constructor does: a
  quantifier with nothing to repeat is a \<^verbatim>\<open>SyntaxError\<close>. A text outside this part is
  reported as \<open>Unsupported_Pattern\<close>. Strings are lists of 8-bit characters, so of
  the line terminators that \<^verbatim>\<open>.\<close> refuses only LF and CR exist here.
\<close>

datatype atom = Lit char | AnyChar | NotDot

datatype quantifier = Once | OneOrMore | ZeroOrMore

type_synonym regexp = "(atom \<times> quantifier) list"

fun quantified :: "atom \<Rightarrow> string \<Rightarrow> (atom \<times> quantifier) \<times> string" where
  "quantified a [] = ((a, Once), [])"
| "quantified a (c # cs) =
     (if c = CHR ''+'' then ((a, OneOrMore), cs)
      else if c = CHR ''*'' then ((a, ZeroOrMore), cs)
      else ((a, Once), c # cs))"

lemma quantified_length:
  "length (snd (quantified a s)) < Suc (length s)"
  by (cases s) auto

lemma quantified_drop_length:
  "length (snd (quantified a (drop n s))) < Suc (length s)"
  using quantified_length [of a "drop n s"] by simp

function parseTerms :: "string \<Rightarrow> error + regexp" where
  "parseTerms [] = Inr []"
| "parseTerms (c # cs) =
     (if c = backslash then
        (case cs of
           [] \<Rightarrow> Inl RegExp_SyntaxError
         | d # ds \<Rightarrow>
             if d \<in> set regexSpecials then
               (case parseTerms (snd (quantified (Lit d) ds)) of
                  Inl e \<Rightarrow> Inl e
                | Inr r \<Rightarrow> Inr (fst (quantified (Lit d) ds) # r))
             else Inl Unsupported_Pattern)
      else if c = CHR ''.'' then
        (case parseTerms (snd (quantified AnyChar cs)) of
           Inl e \<Rightarrow> Inl e
         | Inr r \<Rightarrow> Inr (fst (quantified AnyChar cs) # r))
      else if c = CHR ''['' then
        (if prefix ''^.]'' cs then
           (case parseTerms (snd (quantified NotDot (drop 3 cs))) of
              Inl e \<Rightarrow> Inl e
            | Inr r \<Rightarrow> Inr (fst (quantified NotDot (drop 3 cs)) # r))
         else Inl Unsupported_Pattern)
      else if c = CHR ''*'' \<or> c = CHR ''+'' then Inl RegExp_SyntaxError
      else if c \<in> set regexSpecials then Inl Unsupported_Pattern
      else
        (case parseTerms (snd (quantified (Lit c) cs)) of
           Inl e \<Rightarrow> Inl e
         | Inr r \<Rightarrow> Inr (fst (quantified (Lit c) cs) # r)))"
  by pat_completeness auto
termination
  by (relation "measure length")
     (simp_all add: quantified_length quantified_drop_length less_SucI)

definition RegExp :: "string \<Rightarrow> error + regexp" where
  "RegExp src =
     (case src of
        [] \<Rightarrow> Inl Unsupported_Pattern
      | c # cs \<Rightarrow>
          if c = CHR ''^'' \<and> cs \<noteq> [] \<and> last cs = CHR ''$'' then parseTerms (butlast cs)
          else Inl Unsupported_Pattern)"

definition globToRegExp :: "string \<Rightarrow> error + regexp" where
  "globToRegExp glob = RegExp (globSource glob)"

fun atomMatches :: "atom \<Rightarrow> char \<Rightarrow> bool" where
  "atomMatches (Lit d) c = (c = d)"
| "atomMatches AnyChar c = (c \<noteq> CHR 0x0A \<and> c \<noteq> CHR 0x0D)"
| "atomMatches NotDot c = (c \<noteq> CHR ''.'')"

text \<open>
  \<^verbatim>\<open>pattern.test(key)\<close> for a pattern anchored at both ends: the whole key is matched.
\<close>

fun test :: "regexp \<Rightarrow> string \<Rightarrow> bool" where
  "test [] s = (s = [])"
| "test ((a, Once) # r) [] = False"
| "test ((a, Once) # r) (c # cs) = (atomMatches a c \<and> test r cs)"
| "test ((a, OneOrMore) # r) [] = False"
| "test ((a, OneOrMore) # r) (c # cs) = (atomMatches a c \<and> test ((a, ZeroOrMore) # r) cs)"
| "test ((a, ZeroOrMore) # r) [] = test r []"
| "test ((a, ZeroOrMore) # r) (c # cs) =
     (test r (c # cs) \<or> (atomMatches a c \<and> test ((a, ZeroOrMore) # r) cs))"

subsection \<open>Rules\<close>

record field_rule =
  rule_include :: bool
  rule_pattern :: regexp

definition processFieldRule :: "string \<Rightarrow> error + field_rule" where
  "processFieldRule pat =
     (if prefix ''!'' pat then
        map_sum id (\<lambda>re. \<lparr>rule_include = False, rule_pattern = re\<rparr>) (globToRegExp (drop 1 pat))
      else if prefix [backslash, CHR ''!''] pat then
        map_sum id (\<lambda>re. \<lparr>rule_include = True, rule_pattern = re\<rparr>) (globToRegExp (drop 1 pat))
      else
        map_sum id (\<lambda>re. \<lparr>rule_include = True, rule_pattern = re\<rparr>) (globToRegExp pat))"

text \<open>\<^verbatim>\<open>patterns.map\<close>: the rules in the order of the patterns; the first invalid one throws.\<close>

fun processFieldRules :: "string list \<Rightarrow> error + field_rule list" where
  "processFieldRules [] = Inr []"
| "processFieldRules (pat # pats) =
     (case processFieldRule pat of
        Inl e \<Rightarrow> Inl e
      | Inr r \<Rightarrow>
          (case processFieldRules pats of
             Inl e \<Rightarrow> Inl e
           | Inr rs \<Rightarrow> Inr (r # rs)))"

subsection \<open>The walk over the object\<close>

text \<open>
  \<open>getToInclude\<close> returns \<open>None\<close> for \<^verbatim>\<open>undefined\<close>; \<open>getToIncludeAll\<close> is the
  \<^verbatim>\<open>map\<close> over an array followed by the \<^verbatim>\<open>filter\<close> that drops \<^verbatim>\<open>undefined\<close>.
  A scalar that is \<^verbatim>\<open>undefined\<close> itself is returned as such, that is, dropped.

  \<open>applyFieldRules\<close> builds the result by the assignments \<^verbatim>\<open>result[key] = \<dots>\<close> on an
  object literal. For every key but one the assignment adds the entry. For the key
  \<^verbatim>\<open>__proto__\<close> it calls the setter that \<^verbatim>\<open>result\<close> inherits: the prototype of
  \<^verbatim>\<open>result\<close> is replaced when the value is an object, nothing happens when it is not,
  and no entry is added in either case. The result here is the list of the entries that
  \<^verbatim>\<open>result\<close> has of its own (those that \<^verbatim>\<open>Object.keys\<close>, \<^verbatim>\<open>Object.entries\<close> and
  \<^verbatim>\<open>JSON.stringify\<close> see), so the entry under \<^verbatim>\<open>__proto__\<close> is left out of it.
\<close>

fun getToInclude :: "field_rule list \<Rightarrow> jsval \<Rightarrow> string \<Rightarrow> jsval option"
  and getToIncludeAll :: "field_rule list \<Rightarrow> jsval list \<Rightarrow> string \<Rightarrow> jsval list"
  and applyFieldRules :: "(string \<times> jsval) list \<Rightarrow> field_rule list \<Rightarrow> string \<Rightarrow> (string \<times> jsval) list"
  where
  "getToInclude rules (Arr vs) fullKey =
     (let nested = getToIncludeAll rules vs fullKey
      in if nested \<noteq> [] then Some (Arr nested) else None)"
| "getToInclude rules (Obj kvs) fullKey =
     (let nested = applyFieldRules kvs rules (fullKey @ ''.'')
      in if nested \<noteq> [] then Some (Obj nested) else None)"
| "getToInclude rules v fullKey =
     (case find (\<lambda>rule. test (rule_pattern rule) fullKey) rules of
        None \<Rightarrow> None
      | Some matchingRule \<Rightarrow>
          if rule_include matchingRule \<and> v \<noteq> Undefined then Some v else None)"
| "getToIncludeAll rules [] fullKey = []"
| "getToIncludeAll rules (v # vs) fullKey =
     (case getToInclude rules v fullKey of
        None \<Rightarrow> getToIncludeAll rules vs fullKey
      | Some w \<Rightarrow> w # getToIncludeAll rules vs fullKey)"
| "applyFieldRules [] rules pfx = []"
| "applyFieldRules ((key, v) # kvs) rules pfx =
     (if key = ''$'' \<or> key = ''_'' then (key, v) # applyFieldRules kvs rules pfx
      else
        (case getToInclude rules v (pfx @ key) of
           None \<Rightarrow> applyFieldRules kvs rules pfx
         | Some toInclude \<Rightarrow>
             if key = ''__proto__'' then applyFieldRules kvs rules pfx
             else (key, toInclude) # applyFieldRules kvs rules pfx))"

definition getFields :: "(string \<times> jsval) list \<Rightarrow> string list \<Rightarrow> error + (string \<times> jsval) list" where
  "getFields object patterns =
     (case processFieldRules patterns of
        Inl e \<Rightarrow> Inl e
      | Inr rules \<Rightarrow> Inr (applyFieldRules object (rev rules) []))"

section \<open>Functions of the specification\<close>

text \<open>The ledger after the insertion of a key, in the spec's words: the key is added if absent.\<close>

definition ledgerWith :: "jsval list \<Rightarrow> string \<Rightarrow> jsval list" where
  "ledgerWith xs key = (if Str key \<in> set xs then xs else xs @ [Str key])"

text \<open>
  The order of visit, in the spec's words: forward from index \<open>offset\<close> to the end,
  reverse from index \<open>length - 1 - offset\<close> down to 0.
\<close>

definition visitOrder :: "bool \<Rightarrow> int \<Rightarrow> int \<Rightarrow> int list" where
  "visitOrder reverse' offset' length' =
     (if reverse' then rev [0..length' - 1 - offset'] else [offset'..length' - 1])"

text \<open>
  A body run over a list of indices in order: the first exception ends the run, and the
  entries the body returns are collected in the order of the list.
\<close>

fun scanFrom :: "(int \<Rightarrow> error + 'a option) \<Rightarrow> int list \<Rightarrow> error + 'a list" where
  "scanFrom body [] = Inr []"
| "scanFrom body (i # rest) =
     (case body i of
        Inl e \<Rightarrow> Inl e
      | Inr r \<Rightarrow>
          (case scanFrom body rest of
             Inl e \<Rightarrow> Inl e
           | Inr xs \<Rightarrow> Inr (case r of None \<Rightarrow> xs | Some x \<Rightarrow> x # xs)))"

text \<open>The body returns at an index, that is, it throws nothing there.\<close>

definition returns :: "'e + 'a \<Rightarrow> bool" where
  "returns r = (case r of Inl e \<Rightarrow> False | Inr x \<Rightarrow> True)"

text \<open>The entry the body pushed at an index, if it pushed one.\<close>

definition pushed :: "'e + 'a option \<Rightarrow> 'a option" where
  "pushed r = (case r of Inl e \<Rightarrow> None | Inr x \<Rightarrow> x)"



subsection \<open>The predicates of the selection\<close>







subsection \<open>Local calendar days\<close>

text \<open>
  A numbering \<open>dayOf\<close> of the calendar days of the local time zone, and what makes
  \<^verbatim>\<open>setHours\<close> delimit them: a later instant is never on an earlier day; the instants
  that \<^verbatim>\<open>setHours(0, 0, 0, 0)\<close> and \<^verbatim>\<open>setHours(23, 59, 59, 999)\<close> give are on the day
  of the date they are applied to; and every instant of that day lies between them.
  Days need not have 24 hours.
\<close>

definition calendarDays :: "platform \<Rightarrow> (int \<Rightarrow> int) \<Rightarrow> bool" where
  "calendarDays P dayOf =
     ((\<forall>t u. t \<le> u \<longrightarrow> dayOf t \<le> dayOf u)
      \<and> (\<forall>t. dayOf (setHours_0 P t) = dayOf t \<and> dayOf (setHours_23 P t) = dayOf t)
      \<and> (\<forall>t u. dayOf u = dayOf t \<longrightarrow> setHours_0 P t \<le> u \<and> u \<le> setHours_23 P t))"

text \<open>
  A zone that keeps one offset from UTC, in minutes, positive east of UTC: local time
  is the instant plus the offset, and a day has 86400000 milliseconds.
\<close>

definition msPerDay :: int where
  "msPerDay = 86400000"

definition fixedOffsetDay :: "int \<Rightarrow> int \<Rightarrow> int" where
  "fixedOffsetDay minutes t = (t + minutes * 60000) div msPerDay"

definition fixedOffset_setHours_0 :: "int \<Rightarrow> int \<Rightarrow> int" where
  "fixedOffset_setHours_0 minutes t = msPerDay * fixedOffsetDay minutes t - minutes * 60000"

definition fixedOffset_setHours_23 :: "int \<Rightarrow> int \<Rightarrow> int" where
  "fixedOffset_setHours_23 minutes t =
     msPerDay * fixedOffsetDay minutes t + (msPerDay - 1) - minutes * 60000"

text \<open>
  A zone with daylight saving, as America/New\_York has it in 2020: five hours west of
  UTC until 2020-03-08T07:00:00Z, when local time goes from 02:00 to 03:00; four hours
  west until 2020-11-01T06:00:00Z, when local time goes from 02:00 back to 01:00; and
  five hours west from then on. A local time is read with the offset in force at that
  local time, and with the earlier of the two when the local time occurs twice. The
  local day 2020-03-08 has 23 hours and the local day 2020-11-01 has 25.
\<close>

definition springForward :: int where
  "springForward = 1583650800000"

definition fallBack :: int where
  "fallBack = 1604210400000"

definition dstOffset :: "int \<Rightarrow> int" where
  "dstOffset t = (if t < springForward \<or> fallBack \<le> t then - 18000000 else - 14400000)"

definition dstDay :: "int \<Rightarrow> int" where
  "dstDay t = (t + dstOffset t) div msPerDay"

definition dstInstant :: "int \<Rightarrow> int" where
  "dstInstant localTime =
     (if localTime + 18000000 < springForward then localTime + 18000000
      else if localTime + 14400000 < fallBack then localTime + 14400000
      else localTime + 18000000)"

definition dst_setHours_0 :: "int \<Rightarrow> int" where
  "dst_setHours_0 t = dstInstant (msPerDay * dstDay t)"

definition dst_setHours_23 :: "int \<Rightarrow> int" where
  "dst_setHours_23 t = dstInstant (msPerDay * dstDay t + (msPerDay - 1))"

subsection \<open>Fields and their key paths\<close>

text \<open>The two reserved key names, which the projector passes through.\<close>

definition reservedKey :: "string \<Rightarrow> bool" where
  "reservedKey k = (k = ''$'' \<or> k = ''_'')"

definition isReserved :: "string \<times> jsval \<Rightarrow> bool" where
  "isReserved entry = reservedKey (fst entry)"

text \<open>
  The values that stand whole under a top-level key: a scalar that is not
  \<^verbatim>\<open>undefined\<close>, an array that is not empty and holds such values, an object that is
  not empty and has reserved keys only.
\<close>

fun standsWhole :: "jsval \<Rightarrow> bool" where
  "standsWhole (Arr vs) = (vs \<noteq> [] \<and> list_all standsWhole vs)"
| "standsWhole (Obj kvs) = (kvs \<noteq> [] \<and> list_all isReserved kvs)"
| "standsWhole Undefined = False"
| "standsWhole v = True"

text \<open>The values that have no reserved key at any depth.\<close>

fun noReserved :: "jsval \<Rightarrow> bool"
  and noReservedAll :: "jsval list \<Rightarrow> bool"
  and noReservedEntries :: "(string \<times> jsval) list \<Rightarrow> bool"
  where
  "noReserved (Arr vs) = noReservedAll vs"
| "noReserved (Obj kvs) = noReservedEntries kvs"
| "noReserved v = True"
| "noReservedAll [] = True"
| "noReservedAll (v # vs) = (noReserved v \<and> noReservedAll vs)"
| "noReservedEntries [] = True"
| "noReservedEntries ((k, v) # kvs) = (\<not> reservedKey k \<and> noReserved v \<and> noReservedEntries kvs)"

text \<open>A top-level key that the pattern \<^verbatim>\<open>*\<close> matches: not empty, and without a dot.\<close>

definition plainKey :: "string \<Rightarrow> bool" where
  "plainKey k = (k \<noteq> [] \<and> CHR ''.'' \<notin> set k)"

text \<open>
  The fields of an object with their full dotted key paths. An element of an array has
  the key path of the array; a field of a nested object has the key path of the object,
  a dot, and its key. What stands under a reserved key is passed as it is, whatever it
  holds. What stands under the key \<^verbatim>\<open>__proto__\<close> is listed as such: no assignment
  copies it.
\<close>

datatype leaf =
    Field string jsval
  | Passed string jsval
  | Prototype string jsval

fun leavesOf :: "string \<Rightarrow> jsval \<Rightarrow> leaf list"
  and leavesAll :: "string \<Rightarrow> jsval list \<Rightarrow> leaf list"
  and leavesEntries :: "string \<Rightarrow> (string \<times> jsval) list \<Rightarrow> leaf list"
  where
  "leavesOf path (Arr vs) = leavesAll path vs"
| "leavesOf path (Obj kvs) = leavesEntries (path @ ''.'') kvs"
| "leavesOf path v = [Field path v]"
| "leavesAll path [] = []"
| "leavesAll path (v # vs) = leavesOf path v @ leavesAll path vs"
| "leavesEntries pfx [] = []"
| "leavesEntries pfx ((k, v) # kvs) =
     (if reservedKey k then [Passed (pfx @ k) v]
      else if k = ''__proto__'' then [Prototype (pfx @ k) v]
      else leavesOf (pfx @ k) v) @ leavesEntries pfx kvs"

text \<open>
  Last declared wins, in the spec's words: of the rules that match a key path, the one
  declared last decides. A field is kept when that rule is an include rule (and when
  there is something to keep: a field that is \<^verbatim>\<open>undefined\<close> is not). What stands
  under a reserved key is kept whatever the rules are, and what stands under
  \<^verbatim>\<open>__proto__\<close> is never kept.
\<close>

definition lastMatching :: "field_rule list \<Rightarrow> string \<Rightarrow> field_rule option" where
  "lastMatching declared path =
     (case filter (\<lambda>rule. test (rule_pattern rule) path) declared of
        [] \<Rightarrow> None
      | r # rs \<Rightarrow> Some (last (r # rs)))"

fun keeps :: "field_rule list \<Rightarrow> leaf \<Rightarrow> bool" where
  "keeps declared (Passed path v) = True"
| "keeps declared (Prototype path v) = False"
| "keeps declared (Field path v) =
     (v \<noteq> Undefined
      \<and> (case lastMatching declared path of None \<Rightarrow> False | Some rule \<Rightarrow> rule_include rule))"

text \<open>
  The source texts that \<open>globSource\<close> puts between \<^verbatim>\<open>^\<close> and \<^verbatim>\<open>$\<close> are sequences of
  four kinds of token: a backslash and a special character, a character that is not
  special, \<^verbatim>\<open>.+\<close>, and \<^verbatim>\<open>[^.]+\<close>.
\<close>

function tokens :: "string \<Rightarrow> bool" where
  "tokens [] = True"
| "tokens (c # s) =
     (if c = backslash then (case s of [] \<Rightarrow> False | d # s' \<Rightarrow> d \<in> set regexSpecials \<and> tokens s')
      else if c = CHR ''.'' then (case s of [] \<Rightarrow> False | d # s' \<Rightarrow> d = CHR ''+'' \<and> tokens s')
      else if c = CHR ''['' then prefix ''^.]+'' s \<and> tokens (drop 4 s)
      else c \<notin> set regexSpecials \<and> tokens s)"
  by pat_completeness auto
termination
  by (relation "measure length") simp_all

section \<open>A concrete platform and concrete inputs\<close>

text \<open>
  A small platform on which the functions above can be run: paths are joined with
  slashes, only addresses under \<^verbatim>\<open>https://host\<close> parse, an extension starts at the
  last dot, a pattern is a literal that is searched in the title (\<^verbatim>\<open>(\<close> is the one
  invalid pattern), local time is UTC, and \<^verbatim>\<open>JSON\<close> and \<^verbatim>\<open>Date\<close> know the texts of
  the examples: the ledgers \<^verbatim>\<open>[]\<close>, \<^verbatim>\<open>["k1"]\<close> and \<^verbatim>\<open>["k1","k2"]\<close>, and three dates.
\<close>

definition joined :: "string \<Rightarrow> string list \<Rightarrow> string" where
  "joined sep xs = foldr (\<lambda>x r. if r = [] then x else x @ sep @ r) xs []"

definition demo_resolve :: "string list \<Rightarrow> string" where
  "demo_resolve xs = joined ''/'' xs"

definition quoted :: "string \<Rightarrow> string" where
  "quoted s = [CHR 0x22] @ s @ [CHR 0x22]"

definition ledgerText :: "string list \<Rightarrow> string" where
  "ledgerText ks = ''['' @ joined '','' (map quoted ks) @ '']''"

definition demo_JSON_parse :: "string \<Rightarrow> jsval option" where
  "demo_JSON_parse s =
     (if s = ledgerText [] then Some (Arr [])
      else if s = ledgerText [''k1''] then Some (Arr [Str ''k1''])
      else if s = ledgerText [''k1'', ''k2''] then Some (Arr [Str ''k1'', Str ''k2''])
      else if s = ''{}'' then Some (Obj [])
      else None)"

definition demo_JSON_stringify :: "jsval \<Rightarrow> string" where
  "demo_JSON_stringify v =
     (if v = Arr [] then ledgerText []
      else if v = Arr [Str ''k1''] then ledgerText [''k1'']
      else if v = Arr [Str ''k1'', Str ''k2''] then ledgerText [''k1'', ''k2'']
      else if v = Obj [] then ''{}''
      else ''null'')"

definition demo_URL_pathname :: "string \<Rightarrow> string option" where
  "demo_URL_pathname s = (if prefix ''https://host'' s then Some (drop 12 s) else None)"

definition demo_extname :: "string \<Rightarrow> string" where
  "demo_extname p =
     (let r = takeWhile (\<lambda>c. c \<noteq> CHR ''.'') (rev p)
      in if length r = length p then [] else CHR ''.'' # rev r)"

text \<open>
  The three instants of the dates scenario, in milliseconds since the epoch:
  \<^verbatim>\<open>2020-01-10\<close> is midnight UTC of that day (a date-only ISO text is read as UTC).
\<close>

definition demo_Date_parse :: "string \<Rightarrow> int option" where
  "demo_Date_parse s =
     (if s = ''2020-01-10'' then Some 1578614400000
      else if s = ''2020-01-10T23:00:00Z'' then Some 1578697200000
      else if s = ''2020-01-11T00:01:00Z'' then Some 1578700860000
      else None)"

definition demo_RegExp_new :: "string \<Rightarrow> (string \<Rightarrow> bool) option" where
  "demo_RegExp_new re = (if re = ''('' then None else Some (\<lambda>t. sublist re t))"

definition extText :: "ext_value \<Rightarrow> string" where
  "extText e = (case e of NoExt \<Rightarrow> ''null'' | Ext s \<Rightarrow> s | Inherited name \<Rightarrow> ''function'')"

definition demoPlatform :: platform where
  "demoPlatform =
     \<lparr>cwd = ''/work'',
      path_resolve = demo_resolve,
      JSON_parse = demo_JSON_parse,
      JSON_stringify = demo_JSON_stringify,
      URL_pathname = demo_URL_pathname,
      path_extname = demo_extname,
      Date_parse = demo_Date_parse,
      setHours_0 = fixedOffset_setHours_0 0,
      setHours_23 = fixedOffset_setHours_23 0,
      RegExp_new = demo_RegExp_new,
      getArchiveFilename = (\<lambda>d n e. js_string d @ ''_'' @ js_string n @ extText e),
      getFilename = (\<lambda>it fd u ext tpl. js_string (title it) @ ext)\<rparr>"

definition noFiles :: filesystem where
  "noFiles = (\<lambda>p. None)"

definition brokenLedger :: filesystem where
  "brokenLedger = noFiles(''/work/archive.json'' \<mapsto> ''['' @ quoted ''k1'' @ '','')"

definition episode :: "string \<Rightarrow> rss_item" where
  "episode name =
     \<lparr>title = Some name, pubDate = None, link = None,
      enclosure = Some \<lparr>enc_url = Some (''https://host/'' @ name @ ''.mp3''),
                        enc_type = Some ''audio/mpeg''\<rparr>,
      item_image = None, itunes = None, guid = Some name,
      originalIndex = None, extra_downloads = None\<rparr>"

definition demoParams :: "rss_item list \<Rightarrow> params" where
  "demoParams its =
     \<lparr>archive = None, archiveUrl = ''host/feed'', basePath = ''/work/out'',
      feed = \<lparr>feed_title = Some ''Show'', items = its\<rparr>,
      limit = None, offset = 0, reverse = False, before = None, after = None,
      episodeRegex = None, episodeTemplate = ''{{title}}'', includeEpisodeImages = False\<rparr>"

definition ledgerK1 :: filesystem where
  "ledgerK1 = noFiles(''/work/archive.json'' \<mapsto> ledgerText [''k1''])"

definition feed3 :: "rss_item list" where
  "feed3 = [episode ''e0'', episode ''e1'', episode ''e2'']"


text \<open>An entry as the selection returns it on the concrete platform.\<close>

definition chosen :: "string \<Rightarrow> int \<Rightarrow> rss_item" where
  "chosen name i = (episode name)\<lparr>originalIndex := Some i, extra_downloads := Some []\<rparr>"





definition emptyFeed :: params where
  "emptyFeed = demoParams []"

definition offsetThree :: params where
  "offsetThree = (demoParams feed3)\<lparr>offset := 3, reverse := True\<rparr>"

text \<open>An entry without a title, and a selection by a pattern that no title of the feed matches.\<close>

definition untitled :: rss_item where
  "untitled = (episode ''e1'')\<lparr>title := None\<rparr>"

definition byPattern :: params where
  "byPattern = (demoParams [episode ''e0'', untitled])\<lparr>episodeRegex := Some ''zzz''\<rparr>"

text \<open>The dates scenario: two entries and the bound \<^verbatim>\<open>before = 2020-01-10\<close>.\<close>

definition dated :: "string \<Rightarrow> string \<Rightarrow> rss_item" where
  "dated name d = (episode name)\<lparr>pubDate := Some d\<rparr>"

definition untilJan10 :: params where
  "untilJan10 =
     (demoParams [dated ''e0'' ''2020-01-11T00:01:00Z'', dated ''e1'' ''2020-01-10T23:00:00Z''])
       \<lparr>before := Some ''2020-01-10''\<rparr>"

text \<open>The same platform one hour east of UTC, and in the zone with daylight saving.\<close>

definition utcPlusOne :: platform where
  "utcPlusOne =
     demoPlatform\<lparr>setHours_0 := fixedOffset_setHours_0 60,
                  setHours_23 := fixedOffset_setHours_23 60\<rparr>"

definition daylightSaving :: platform where
  "daylightSaving =
     demoPlatform\<lparr>setHours_0 := dst_setHours_0, setHours_23 := dst_setHours_23\<rparr>"

text \<open>Objects for the projector.\<close>

definition nestedObject :: "(string \<times> jsval) list" where
  "nestedObject = [(''a'', Obj [(''b'', Num 1)])]"

definition flatObject :: "(string \<times> jsval) list" where
  "flatObject =
     [(''title'', Str ''t''), (''$'', Obj [(''x.y'', Num 2)]),
      (''tags'', Arr [Str ''u'', Obj [(''_'', Str ''w'')]])]"

definition plainObject :: "(string \<times> jsval) list" where
  "plainObject =
     [(''title'', Str ''t''), (''$'', Obj [(''x.y'', Num 2)]), (''n'', Obj [(''m'', Num 1)])]"

definition twoFields :: "(string \<times> jsval) list" where
  "twoFields = [(''a'', Num 1), (''b'', Num 2)]"

text \<open>
  An object with nested objects, an array, a reserved key and the key \<^verbatim>\<open>__proto__\<close>,
  and the rules that the texts \<^verbatim>\<open>**\<close>, \<^verbatim>\<open>!a.b\<close> and \<^verbatim>\<open>!d\<close> compile to.
\<close>

definition deepObject :: "(string \<times> jsval) list" where
  "deepObject =
     [(''a'', Obj [(''b'', Num 1), (''c'', Num 2)]),
      (''d'', Arr [Obj [(''e'', Num 3)], Num 4]),
      (''__proto__'', Num 5),
      (''$'', Str ''x'')]"

definition threeRules :: "field_rule list" where
  "threeRules =
     [\<lparr>rule_include = True, rule_pattern = [(AnyChar, OneOrMore)]\<rparr>,
      \<lparr>rule_include = False,
       rule_pattern = [(Lit (CHR ''a''), Once), (Lit (CHR ''.''), Once), (Lit (CHR ''b''), Once)]\<rparr>,
      \<lparr>rule_include = False, rule_pattern = [(Lit (CHR ''d''), Once)]\<rparr>]"

text \<open>A feed whose second entry has a link that is no absolute URL.\<close>

definition relativeLink :: params where
  "relativeLink = demoParams [episode ''e0'', (episode ''e1'')\<lparr>link := Some ''e1.mp3''\<rparr>]"


section \<open>The concrete platform\<close>

lemma demoPlatform_simps:
  "cwd demoPlatform = ''/work''"
  "path_resolve demoPlatform = demo_resolve"
  "JSON_parse demoPlatform = demo_JSON_parse"
  "JSON_stringify demoPlatform = demo_JSON_stringify"
  "URL_pathname demoPlatform = demo_URL_pathname"
  "path_extname demoPlatform = demo_extname"
  "Date_parse demoPlatform = demo_Date_parse"
  "setHours_0 demoPlatform = fixedOffset_setHours_0 0"
  "setHours_23 demoPlatform = fixedOffset_setHours_23 0"
  "RegExp_new demoPlatform = demo_RegExp_new"
  "getArchiveFilename demoPlatform = (\<lambda>d n e. js_string d @ ''_'' @ js_string n @ extText e)"
  "getFilename demoPlatform = (\<lambda>it fd u ext tpl. js_string (title it) @ ext)"
  by (simp_all add: demoPlatform_def)

lemma demo_archive_path:
  "path_resolve demoPlatform [cwd demoPlatform, ''archive.json''] = ''/work/archive.json''"
  by (simp add: demoPlatform_simps demo_resolve_def joined_def)

section \<open>Properties of the archive ledger\<close>

lemma getArchive_absent:
  "fs (path_resolve P [cwd P, a]) = None \<Longrightarrow> getArchive P fs a = Inr (Arr [])"
  by (simp add: getArchive_def)

lemma getArchive_malformed:
  "fs (path_resolve P [cwd P, a]) = Some content \<Longrightarrow> JSON_parse P content = None
     \<Longrightarrow> getArchive P fs a = Inl JSON_SyntaxError"
  by (simp add: getArchive_def)

lemma selection_propagates_archive_error:
  "a \<noteq> [] \<Longrightarrow> getArchive P fs a = Inl e
     \<Longrightarrow> getItemsToDownload P fs (q\<lparr>archive := Some a\<rparr>) = Inl e"
  by (simp add: getItemsToDownload_def getItemsToDownload_traced_def loadSavedArchive_def
        Let_def)

text \<open>
  Claim C7. Loading the ledger returns the empty ledger when the file does not exist.
  When the file exists and its content is not JSON, loading raises the parse error;
  so do the membership test and the insertion, so does the selection that was given
  this ledger, and a download run whose feed has entries beyond the offset ends with
  that exception uncaught: the ledger is never taken as empty.
\<close>

theorem getArchive_absent_or_malformed:
  "(fs (path_resolve P [cwd P, a]) = None \<longrightarrow> getArchive P fs a = Inr (Arr []))
   \<and> (\<forall>content.
        fs (path_resolve P [cwd P, a]) = Some content \<and> JSON_parse P content = None \<longrightarrow>
          getArchive P fs a = Inl JSON_SyntaxError
          \<and> getIsInArchive P fs key a = Inl JSON_SyntaxError
          \<and> writeToArchive P fs key a = Inl JSON_SyntaxError
          \<and> (a \<noteq> [] \<longrightarrow>
                getItemsToDownload P fs (q\<lparr>archive := Some a\<rparr>) = Inl JSON_SyntaxError
                \<and> (items (feed q) \<noteq> [] \<and> offset q < int (length (items (feed q))) \<longrightarrow>
                     main_selection P fs (q\<lparr>archive := Some a\<rparr>) = Uncaught JSON_SyntaxError)))"
proof (intro conjI impI allI)
  assume "fs (path_resolve P [cwd P, a]) = None"
  then show "getArchive P fs a = Inr (Arr [])"
    by (rule getArchive_absent)
next
  fix content
  assume bad: "fs (path_resolve P [cwd P, a]) = Some content \<and> JSON_parse P content = None"
  then show load: "getArchive P fs a = Inl JSON_SyntaxError"
    by (simp add: getArchive_malformed)
  from load show "getIsInArchive P fs key a = Inl JSON_SyntaxError"
    by (simp add: getIsInArchive_def)
  from load show "writeToArchive P fs key a = Inl JSON_SyntaxError"
    by (simp add: writeToArchive_def)
  assume "a \<noteq> []"
  with load show sel: "getItemsToDownload P fs (q\<lparr>archive := Some a\<rparr>) = Inl JSON_SyntaxError"
    by (simp add: selection_propagates_archive_error)
  assume "items (feed q) \<noteq> [] \<and> offset q < int (length (items (feed q)))"
  with sel show "main_selection P fs (q\<lparr>archive := Some a\<rparr>) = Uncaught JSON_SyntaxError"
    by (simp add: main_selection_def)
qed

theorem getArchive_absent_or_malformed_witness:
  "getArchive demoPlatform noFiles ''archive.json'' = Inr (Arr [])
   \<and> getArchive demoPlatform brokenLedger ''archive.json'' = Inl JSON_SyntaxError
   \<and> getIsInArchive demoPlatform brokenLedger ''k1'' ''archive.json'' = Inl JSON_SyntaxError
   \<and> writeToArchive demoPlatform brokenLedger ''k1'' ''archive.json'' = Inl JSON_SyntaxError
   \<and> getItemsToDownload demoPlatform brokenLedger
        ((demoParams [episode ''e0''])\<lparr>archive := Some ''archive.json''\<rparr>) = Inl JSON_SyntaxError
   \<and> main_selection demoPlatform brokenLedger
        ((demoParams [episode ''e0''])\<lparr>archive := Some ''archive.json''\<rparr>)
       = Uncaught JSON_SyntaxError"
proof -
  have absent: "noFiles (path_resolve demoPlatform [cwd demoPlatform, ''archive.json'']) = None"
    by (simp add: noFiles_def)
  have bad: "brokenLedger (path_resolve demoPlatform [cwd demoPlatform, ''archive.json''])
               = Some (''['' @ quoted ''k1'' @ '','')
             \<and> JSON_parse demoPlatform (''['' @ quoted ''k1'' @ '','') = None"
    by code_simp
  have q: "items (feed (demoParams [episode ''e0''])) \<noteq> []
           \<and> offset (demoParams [episode ''e0''])
               < int (length (items (feed (demoParams [episode ''e0'']))))"
    by (simp add: demoParams_def)
  from getArchive_absent_or_malformed
         [of noFiles demoPlatform "''archive.json''" "''k1''" "demoParams [episode ''e0'']"]
       absent
  have 1: "getArchive demoPlatform noFiles ''archive.json'' = Inr (Arr [])"
    by blast
  from getArchive_absent_or_malformed
         [of brokenLedger demoPlatform "''archive.json''" "''k1''" "demoParams [episode ''e0'']"]
       bad q
  show ?thesis using 1 by simp
qed

lemma js_includes_ledgerWith: "js_includes (Arr (ledgerWith xs key)) key = Inr True"
  by (simp add: js_includes_def ledgerWith_def)

lemma ledgerWith_idem: "ledgerWith (ledgerWith xs key) key = ledgerWith xs key"
  by (simp add: ledgerWith_def)

lemma writeToArchive_array:
  "getArchive P fs a = Inr (Arr xs) \<Longrightarrow>
     writeToArchive P fs key a =
       Inr (fs(path_resolve P [cwd P, a] \<mapsto> JSON_stringify P (Arr (ledgerWith xs key))))"
  by (simp add: writeToArchive_def js_includes_def js_push_def ledgerWith_def)

lemma getArchive_after_write:
  "JSON_parse P content = Some v \<Longrightarrow>
     getArchive P (fs(path_resolve P [cwd P, a] \<mapsto> content)) a = Inr v"
  by (simp add: getArchive_def)

text \<open>
  Claim C6. On a ledger that loads as an array (a missing file loads as the empty
  array), and with a \<^verbatim>\<open>JSON\<close> that reads back the array it wrote,
  \<^verbatim>\<open>writeToArchive\<close> rewrites the one file with the whole array, the key appended only
  if it was absent; afterwards the ledger holds that array and \<^verbatim>\<open>getIsInArchive\<close>
  returns true; inserting a key that is present leaves the contents as they were; and a
  second insertion of the same key changes nothing.
\<close>

theorem writeToArchive_idempotent:
  assumes "getArchive P fs a = Inr (Arr xs)"
    and "JSON_parse P (JSON_stringify P (Arr (ledgerWith xs key))) = Some (Arr (ledgerWith xs key))"
  shows "(let fs' = fs(path_resolve P [cwd P, a] \<mapsto> JSON_stringify P (Arr (ledgerWith xs key)))
          in writeToArchive P fs key a = Inr fs'
             \<and> ledgerWith xs key = (if Str key \<in> set xs then xs else xs @ [Str key])
             \<and> getArchive P fs' a = Inr (Arr (ledgerWith xs key))
             \<and> getIsInArchive P fs' key a = Inr True
             \<and> (Str key \<in> set xs \<longrightarrow> getArchive P fs' a = getArchive P fs a)
             \<and> writeToArchive P fs' key a = Inr fs')"
proof -
  let ?p = "path_resolve P [cwd P, a]"
  let ?fs' = "fs(?p \<mapsto> JSON_stringify P (Arr (ledgerWith xs key)))"
  have w: "writeToArchive P fs key a = Inr ?fs'"
    using assms(1) by (rule writeToArchive_array)
  have l: "getArchive P ?fs' a = Inr (Arr (ledgerWith xs key))"
    using assms(2) by (rule getArchive_after_write)
  have m: "getIsInArchive P ?fs' key a = Inr True"
    by (simp add: getIsInArchive_def l js_includes_ledgerWith)
  have u: "Str key \<in> set xs \<longrightarrow> getArchive P ?fs' a = getArchive P fs a"
    using l assms(1) by (auto simp: ledgerWith_def)
  have "writeToArchive P ?fs' key a
          = Inr (?fs'(?p \<mapsto> JSON_stringify P (Arr (ledgerWith (ledgerWith xs key) key))))"
    using l by (rule writeToArchive_array)
  then have i: "writeToArchive P ?fs' key a = Inr ?fs'"
    by (simp add: ledgerWith_idem)
  show ?thesis
    unfolding Let_def using w l m u i by (simp add: ledgerWith_def)
qed

theorem writeToArchive_idempotent_witness:
  "writeToArchive demoPlatform ledgerK1 ''k1'' ''archive.json'' = Inr ledgerK1
   \<and> getArchive demoPlatform ledgerK1 ''archive.json'' = Inr (Arr [Str ''k1''])
   \<and> getIsInArchive demoPlatform ledgerK1 ''k1'' ''archive.json'' = Inr True"
proof -
  note p = demo_archive_path
  have load: "getArchive demoPlatform ledgerK1 ''archive.json'' = Inr (Arr [Str ''k1''])"
    by code_simp
  have lw: "ledgerWith [Str ''k1''] ''k1'' = [Str ''k1'']"
    by (simp add: ledgerWith_def)
  have rt: "JSON_parse demoPlatform (JSON_stringify demoPlatform (Arr (ledgerWith [Str ''k1''] ''k1'')))
              = Some (Arr (ledgerWith [Str ''k1''] ''k1''))"
    by code_simp
  have same: "ledgerK1(''/work/archive.json'' \<mapsto> ledgerText [''k1'']) = ledgerK1"
    by (simp add: ledgerK1_def)
  have st: "JSON_stringify demoPlatform (Arr [Str ''k1'']) = ledgerText [''k1'']"
    by (simp add: demoPlatform_simps(4) demo_JSON_stringify_def)
  from writeToArchive_idempotent [OF load rt]
  show ?thesis
    by (simp add: Let_def lw p st same)
qed

section \<open>Properties of the selection\<close>

declare whileLoop.simps [simp del]

subsection \<open>The loop as a scan of the visit order\<close>

text \<open>
  From index \<open>i\<close> on, an ascending loop has the indices \<open>i\<close> to \<open>bound - 1\<close> still to
  visit, a descending loop the indices \<open>i\<close> down to \<open>bound + 1\<close>.
\<close>

lemma shouldGo_False: "\<not> shouldGo ctl i \<Longrightarrow> whileLoop ctl body i vis acc = Inr (vis, acc)"
  by (subst whileLoop.simps) simp

lemma shouldGo_True:
  "shouldGo ctl i \<Longrightarrow>
     whileLoop ctl body i vis acc =
       (case body i of
          Inl e \<Rightarrow> Inl e
        | Inr r \<Rightarrow>
            whileLoop ctl body (next_index ctl i) (vis @ [i])
              (case r of None \<Rightarrow> acc | Some it \<Rightarrow> acc @ [it]))"
  by (subst whileLoop.simps) simp

lemma whileLoop_ascending:
  "\<not> descending ctl \<Longrightarrow>
     whileLoop ctl body i vis acc =
       (case scanFrom body [i..bound ctl - 1] of
          Inl e \<Rightarrow> Inl e
        | Inr xs \<Rightarrow> Inr (vis @ [i..bound ctl - 1], acc @ xs))"
proof (induction ctl body i vis acc rule: whileLoop.induct)
  case (1 ctl body i vis acc)
  show ?case
  proof (cases "shouldGo ctl i")
    case False
    with "1.prems" have "[i..bound ctl - 1] = []"
      by (simp add: shouldGo_def)
    with False show ?thesis
      by (simp add: shouldGo_False)
  next
    case True
    with "1.prems" have unfold: "[i..bound ctl - 1] = i # [i + 1..bound ctl - 1]"
      by (simp add: shouldGo_def upto_rec1)
    from "1.prems" have nxt: "next_index ctl i = i + 1"
      by (simp add: next_index_def)
    show ?thesis
    proof (cases "body i")
      case (Inl e)
      with True unfold show ?thesis
        by (simp add: shouldGo_True)
    next
      case (Inr r)
      from "1.IH" [OF True Inr "1.prems"] True Inr unfold nxt show ?thesis
        by (simp add: shouldGo_True split: sum.splits option.splits)
    qed
  qed
qed

lemma whileLoop_descending:
  "descending ctl \<Longrightarrow>
     whileLoop ctl body i vis acc =
       (case scanFrom body (rev [bound ctl + 1..i]) of
          Inl e \<Rightarrow> Inl e
        | Inr xs \<Rightarrow> Inr (vis @ rev [bound ctl + 1..i], acc @ xs))"
proof (induction ctl body i vis acc rule: whileLoop.induct)
  case (1 ctl body i vis acc)
  show ?case
  proof (cases "shouldGo ctl i")
    case False
    with "1.prems" have "[bound ctl + 1..i] = []"
      by (simp add: shouldGo_def)
    with False show ?thesis
      by (simp add: shouldGo_False)
  next
    case True
    with "1.prems" have unfold: "rev [bound ctl + 1..i] = i # rev [bound ctl + 1..i - 1]"
      by (simp add: shouldGo_def upto_rec2)
    from "1.prems" have nxt: "next_index ctl i = i - 1"
      by (simp add: next_index_def)
    show ?thesis
    proof (cases "body i")
      case (Inl e)
      with True unfold show ?thesis
        by (simp add: shouldGo_True)
    next
      case (Inr r)
      from "1.IH" [OF True Inr "1.prems"] True Inr unfold nxt show ?thesis
        by (simp add: shouldGo_True split: sum.splits option.splits)
    qed
  qed
qed

lemma whileLoop_visitOrder:
  "whileLoop (getLoopControls off len rv) body (startIndex (getLoopControls off len rv)) [] []
     = (case scanFrom body (visitOrder rv off len) of
          Inl e \<Rightarrow> Inl e
        | Inr xs \<Rightarrow> Inr (visitOrder rv off len, xs))"
proof (cases rv)
  case True
  let ?ctl = "\<lparr>startIndex = len - 1 - off, descending = True, bound = - 1\<rparr>"
  have "whileLoop ?ctl body (len - 1 - off) [] []
          = (case scanFrom body (rev [bound ?ctl + 1..len - 1 - off]) of
               Inl e \<Rightarrow> Inl e
             | Inr xs \<Rightarrow> Inr ([] @ rev [bound ?ctl + 1..len - 1 - off], [] @ xs))"
    by (rule whileLoop_descending) simp
  with True show ?thesis
    by (simp add: getLoopControls_def visitOrder_def split: sum.splits)
next
  case False
  let ?ctl = "\<lparr>startIndex = 0 + off, descending = False, bound = len\<rparr>"
  have "whileLoop ?ctl body off [] []
          = (case scanFrom body [off..bound ?ctl - 1] of
               Inl e \<Rightarrow> Inl e
             | Inr xs \<Rightarrow> Inr ([] @ [off..bound ?ctl - 1], [] @ xs))"
    by (rule whileLoop_ascending) simp
  with False show ?thesis
    by (simp add: getLoopControls_def visitOrder_def split: sum.splits)
qed

lemma traced_scan:
  "getItemsToDownload_traced P fs q =
     (case loadSavedArchive P fs (archive q) of
        Inl e \<Rightarrow> Inl e
      | Inr savedArchive \<Rightarrow>
          (case scanFrom (loopBody P q savedArchive)
                  (visitOrder (reverse q) (offset q) (int (length (items (feed q))))) of
             Inl e \<Rightarrow> Inl e
           | Inr xs \<Rightarrow>
               Inr (visitOrder (reverse q) (offset q) (int (length (items (feed q)))),
                    applyLimit (limit q) xs)))"
  by (simp add: getItemsToDownload_traced_def Let_def whileLoop_visitOrder
        split: sum.splits)

lemma scanFrom_returns:
  "scanFrom body xs = Inr ys \<longleftrightarrow>
     (\<forall>i\<in>set xs. returns (body i)) \<and> ys = List.map_filter (\<lambda>i. pushed (body i)) xs"
proof (induction xs arbitrary: ys)
  case Nil
  show ?case by auto
next
  case (Cons i rest)
  show ?case
  proof (cases "body i")
    case (Inl e)
    then show ?thesis by (simp add: returns_def)
  next
    case (Inr r)
    show ?thesis
    proof (cases "scanFrom body rest")
      case (Inl e)
      with Cons.IH have "\<not> (\<forall>j\<in>set rest. returns (body j))"
        by auto
      with Inl Inr show ?thesis by (simp add: returns_def)
    next
      case inner: (Inr zs)
      with Cons.IH [of zs] have a: "\<forall>j\<in>set rest. returns (body j)"
        and b: "zs = List.map_filter (\<lambda>i. pushed (body i)) rest"
        by auto
      from Inr inner a b show ?thesis
        by (cases r) (auto simp: returns_def pushed_def)
    qed
  qed
qed

subsection \<open>The loop body\<close>



lemma annotate_limit [simp]: "annotate P (q\<lparr>limit := l\<rparr>) = annotate P q"
  by (intro ext) (simp add: annotate_def Let_def cong: option.case_cong sum.case_cong if_cong)

lemma annotate_reverse [simp]: "annotate P (q\<lparr>reverse := r\<rparr>) = annotate P q"
  by (intro ext) (simp add: annotate_def Let_def cong: option.case_cong sum.case_cong if_cong)

lemma annotate_episodeRegex [simp]: "annotate P (q\<lparr>episodeRegex := r\<rparr>) = annotate P q"
  by (intro ext) (simp add: annotate_def Let_def cong: option.case_cong sum.case_cong if_cong)

lemma loopBody_limit [simp]: "loopBody P (q\<lparr>limit := l\<rparr>) = loopBody P q"
  by (intro ext) (simp add: loopBody_def Let_def cong: sum.case_cong prod.case_cong if_cong)

lemma loopBody_reverse [simp]: "loopBody P (q\<lparr>reverse := r\<rparr>) = loopBody P q"
  by (intro ext) (simp add: loopBody_def Let_def cong: sum.case_cong prod.case_cong if_cong)

lemma regexPredicate_unset [simp]: "regexPredicate P None t = Inr True"
  by (simp add: regexPredicate_def)








lemma visitOrder_empty: "len \<le> off \<Longrightarrow> visitOrder rv off len = []"
  by (simp add: visitOrder_def)

lemma visitOrder_reverse: "visitOrder True 0 len = rev (visitOrder False 0 len)"
  by (simp add: visitOrder_def)

lemma map_filter_rev: "List.map_filter f (rev xs) = rev (List.map_filter f xs)"
  by (simp add: List.map_filter_def rev_map rev_filter)

text \<open>
  Nothing in the selection catches an exception. An entry whose link the \<^verbatim>\<open>URL\<close>
  constructor refuses ends the selection with that exception, and so does a pattern that
  the \<^verbatim>\<open>RegExp\<close> constructor refuses.
\<close>

lemma selection_throws_on_relative_link:
  "getItemsToDownload demoPlatform noFiles relativeLink = Inl Invalid_URL"
  by code_simp

lemma selection_throws_on_invalid_pattern:
  "getItemsToDownload demoPlatform noFiles (byPattern\<lparr>episodeRegex := Some ''(''\<rparr>)
     = Inl RegExp_SyntaxError"
  by code_simp

subsection \<open>Claims about the selection\<close>




lemma getItemsToDownload_scan:
  "getItemsToDownload P fs q =
     (case loadSavedArchive P fs (archive q) of
        Inl e \<Rightarrow> Inl e
      | Inr savedArchive \<Rightarrow>
          map_sum id (applyLimit (limit q))
            (scanFrom (loopBody P q savedArchive)
               (visitOrder (reverse q) (offset q) (int (length (items (feed q)))))))"
  by (simp add: getItemsToDownload_def traced_scan split: sum.splits)


lemma applyLimit_unset: "applyLimit None = id"
  by (intro ext) (simp add: applyLimit_def)




text \<open>
  Claim C5. With offset 0 and no limit, the selection with reverse unset returns a list
  exactly when the selection with reverse set returns that list reversed, item for
  item. The other criteria (pattern, date bounds, archive) may be set or not: each is
  decided per entry, whatever the direction; in particular the claim's case, with none
  of them, is covered.
\<close>

theorem reverse_symmetry:
  assumes "offset q = 0" and "limit q = None"
  shows "getItemsToDownload P fs (q\<lparr>reverse := False\<rparr>) = Inr xs
         \<longleftrightarrow> getItemsToDownload P fs (q\<lparr>reverse := True\<rparr>) = Inr (rev xs)"
proof (cases "loadSavedArchive P fs (archive q)")
  case (Inl e)
  then show ?thesis
    by (simp add: getItemsToDownload_scan)
next
  case (Inr savedArchive)
  let ?L = "int (length (items (feed q)))"
  let ?body = "loopBody P q savedArchive"
  have fwd: "getItemsToDownload P fs (q\<lparr>reverse := False\<rparr>)
               = scanFrom ?body (visitOrder False 0 ?L)"
    using assms Inr
    by (simp add: getItemsToDownload_scan applyLimit_unset sum.map_id0 del: scanFrom.simps)
  have bwd: "getItemsToDownload P fs (q\<lparr>reverse := True\<rparr>)
               = scanFrom ?body (rev (visitOrder False 0 ?L))"
    using assms Inr
    by (simp add: getItemsToDownload_scan applyLimit_unset sum.map_id0 visitOrder_reverse
          del: scanFrom.simps)
  show ?thesis
    unfolding fwd bwd scanFrom_returns
    by (auto simp: map_filter_rev)
qed

theorem reverse_symmetry_witness:
  "getItemsToDownload demoPlatform noFiles ((demoParams feed3)\<lparr>reverse := False\<rparr>)
     = Inr [chosen ''e0'' 0, chosen ''e1'' 1, chosen ''e2'' 2]
   \<and> getItemsToDownload demoPlatform noFiles ((demoParams feed3)\<lparr>reverse := True\<rparr>)
     = Inr [chosen ''e2'' 2, chosen ''e1'' 1, chosen ''e0'' 0]"
proof -
  have h: "offset (demoParams feed3) = 0" "limit (demoParams feed3) = None"
    by (simp_all add: demoParams_def)
  have f: "getItemsToDownload demoPlatform noFiles ((demoParams feed3)\<lparr>reverse := False\<rparr>)
             = Inr [chosen ''e0'' 0, chosen ''e1'' 1, chosen ''e2'' 2]"
    by code_simp
  with reverse_symmetry [OF h, of demoPlatform noFiles "[chosen ''e0'' 0, chosen ''e1'' 1, chosen ''e2'' 2]"]
  show ?thesis
    by simp
qed

text \<open>
  Claim C9, as the code has it. When the offset is at least the number of entries, the
  loop calls its body at no index, whatever the direction and whatever the body would
  do: nothing is read from the feed, and the selection, once the ledger is loaded, is
  empty. In \<^verbatim>\<open>main\<close> the check of the offset stands between the check for a feed
  without entries and the call of the selection. From the first of these checks on, a
  run on a feed that has entries exits with the message of the offset and a status that
  is not zero, without calling the selection; a run on a feed without entries exits at
  the check before it, with the message that no episodes were found.
\<close>

theorem offset_beyond_feed:
  assumes "int (length (items (feed q))) \<le> offset q"
  shows "(let ctl = getLoopControls (offset q) (int (length (items (feed q)))) (reverse q)
          in whileLoop ctl body (startIndex ctl) [] [] = Inr ([], []))
         \<and> getItemsToDownload_traced P fs q
             = (case loadSavedArchive P fs (archive q) of
                  Inl e \<Rightarrow> Inl e
                | Inr savedArchive \<Rightarrow> Inr ([], []))
         \<and> (items (feed q) \<noteq> [] \<longrightarrow>
               main_selection P fs q = Exited 1 ''--offset too large. No episodes to download.'')
         \<and> (items (feed q) = [] \<longrightarrow>
               main_selection P fs q = Exited 1 ''No episodes found to download'')
         \<and> logErrorAndExit msg = Exited 1 msg"
proof -
  have empty: "visitOrder (reverse q) (offset q) (int (length (items (feed q)))) = []"
    using assms by (rule visitOrder_empty)
  have loop: "whileLoop (getLoopControls (offset q) (int (length (items (feed q)))) (reverse q))
                body
                (startIndex (getLoopControls (offset q) (int (length (items (feed q)))) (reverse q)))
                [] [] = Inr ([], [])"
    by (simp add: whileLoop_visitOrder empty)
  have traced: "getItemsToDownload_traced P fs q
             = (case loadSavedArchive P fs (archive q) of
                  Inl e \<Rightarrow> Inl e
                | Inr savedArchive \<Rightarrow> Inr ([], []))"
    by (simp add: traced_scan empty applyLimit_def slice0_def split: option.splits
          cong: sum.case_cong)
  from assms loop traced show ?thesis
    by (simp add: Let_def main_selection_def logErrorAndExit_def)
qed

theorem offset_beyond_feed_witness:
  "int (length (items (feed offsetThree))) \<le> offset offsetThree
   \<and> getItemsToDownload_traced demoPlatform noFiles offsetThree = Inr ([], [])
   \<and> main_selection demoPlatform noFiles offsetThree
       = Exited 1 ''--offset too large. No episodes to download.''
   \<and> int (length (items (feed emptyFeed))) \<le> offset emptyFeed
   \<and> main_selection demoPlatform noFiles emptyFeed = Exited 1 ''No episodes found to download''"
proof -
  have h: "int (length (items (feed offsetThree))) \<le> offset offsetThree"
    by code_simp
  have l: "loadSavedArchive demoPlatform noFiles (archive offsetThree) = Inr (Arr [])"
    by code_simp
  have n: "items (feed offsetThree) \<noteq> []"
    by code_simp
  have e: "int (length (items (feed emptyFeed))) \<le> offset emptyFeed"
    by code_simp
  have m: "items (feed emptyFeed) = []"
    by code_simp
  from offset_beyond_feed [OF e, of "\<lambda>i. Inl Undefined_Read" demoPlatform noFiles] m
  have 2: "main_selection demoPlatform noFiles emptyFeed = Exited 1 ''No episodes found to download''"
    by blast
  from offset_beyond_feed [OF h, of "\<lambda>i. Inl Undefined_Read" demoPlatform noFiles] h l n e 2
  show ?thesis
    by simp
qed

theorem offset_message_counterexample:
  "int (length (items (feed emptyFeed))) \<le> offset emptyFeed
   \<and> main_selection demoPlatform noFiles emptyFeed = Exited 1 ''No episodes found to download''
   \<and> main_selection demoPlatform noFiles emptyFeed
       \<noteq> logErrorAndExit ''--offset too large. No episodes to download.''"
  by (simp add: emptyFeed_def demoParams_def main_selection_def logErrorAndExit_def)

text \<open>
  Claim C10. For an entry whose title is absent or empty the block of the pattern never
  clears \<open>isValid\<close>: it leaves it set whenever the pattern compiles (the test is not
  applied), and it does nothing else than throw when the pattern does not compile. So
  at such an entry, when the block returns, the loop body does what it does with no
  pattern set: the entry stays subject to the other predicates alone.
\<close>

theorem untitled_entry_passes_pattern:
  assumes "\<not> truthy t"
  shows "regexPredicate P re t \<noteq> Inr False
         \<and> (\<forall>r test. re = Some r \<and> RegExp_new P r = Some test \<longrightarrow>
               regexPredicate P re t = Inr True)
         \<and> (\<forall>i. 0 \<le> i \<and> i < int (length (items (feed q)))
                  \<and> title (items (feed q) ! nat i) = t
                  \<and> returns (regexPredicate P (episodeRegex q) t) \<longrightarrow>
               loopBody P q savedArchive i = loopBody P (q\<lparr>episodeRegex := None\<rparr>) savedArchive i)"
proof -
  from assms have t: "t = None \<or> t = Some []"
    by (auto simp: truthy_def split: option.splits)
  have outcome: "regexPredicate P re' t = Inr True \<or> regexPredicate P re' t = Inl RegExp_SyntaxError"
    for re'
    using t by (auto simp: regexPredicate_def split: option.splits)
  have a: "regexPredicate P re t \<noteq> Inr False"
    using outcome [of re] by auto
  have b: "regexPredicate P re t = Inr True" if "re = Some r \<and> RegExp_new P r = Some test"
    for r test
    using t that by (auto simp: regexPredicate_def)
  have c: "loopBody P q savedArchive i = loopBody P (q\<lparr>episodeRegex := None\<rparr>) savedArchive i"
    if "0 \<le> i \<and> i < int (length (items (feed q))) \<and> title (items (feed q) ! nat i) = t
        \<and> returns (regexPredicate P (episodeRegex q) t)"
    for i
  proof -
    from that outcome [of "episodeRegex q"] have "regexPredicate P (episodeRegex q) t = Inr True"
      by (auto simp: returns_def)
    with that show ?thesis
      by (simp add: loopBody_def Let_def cong: sum.case_cong prod.case_cong if_cong)
  qed
  from a b c show ?thesis
    by blast
qed

theorem untitled_entry_passes_pattern_witness:
  "\<not> truthy (title untitled)
   \<and> regexPredicate demoPlatform (Some ''zzz'') (title untitled) = Inr True
   \<and> regexPredicate demoPlatform (Some ''zzz'') (title (episode ''e0'')) = Inr False
   \<and> getItemsToDownload demoPlatform noFiles byPattern
       = Inr [untitled\<lparr>originalIndex := Some 1, extra_downloads := Some []\<rparr>]"
proof -
  have h: "\<not> truthy (title untitled)"
    by code_simp
  have c: "RegExp_new demoPlatform ''zzz'' = Some (\<lambda>t. sublist ''zzz'' t)"
    by (simp add: demoPlatform_simps demo_RegExp_new_def)
  from untitled_entry_passes_pattern [OF h, of demoPlatform "Some ''zzz''"] c
  have 1: "regexPredicate demoPlatform (Some ''zzz'') (title untitled) = Inr True"
    by blast
  have 2: "regexPredicate demoPlatform (Some ''zzz'') (title (episode ''e0'')) = Inr False"
    by code_simp
  have 3: "getItemsToDownload demoPlatform noFiles byPattern
       = Inr [untitled\<lparr>originalIndex := Some 1, extra_downloads := Some []\<rparr>]"
    by code_simp
  from h 1 2 3 show ?thesis
    by simp
qed

section \<open>Properties of the date bounds\<close>

subsection \<open>Days as intervals\<close>

lemma div_less_iff_int:
  fixes D :: int
  assumes "0 < D"
  shows "(y div D < k) = (y < D * k)"
proof -
  have "((y - D * k) + k * D) div D = k + (y - D * k) div D"
    using assms by (subst div_mult_self1) simp_all
  then have "y div D = k + (y - D * k) div D"
    by (simp add: algebra_simps)
  moreover have "((y - D * k) div D < 0) = (y - D * k < 0)"
    using assms by (rule pos_imp_zdiv_neg_iff)
  ultimately show ?thesis
    by simp
qed

lemma div_eq_iff_bounds:
  fixes D :: int
  assumes "0 < D"
  shows "(y div D = n) = (D * n \<le> y \<and> y < D * n + D)"
proof -
  have "(y div D = n) = (\<not> y div D < n \<and> y div D < n + 1)"
    by auto
  also have "\<dots> = (\<not> y < D * n \<and> y < D * (n + 1))"
    by (simp only: div_less_iff_int [OF assms])
  finally show ?thesis
    by (auto simp: algebra_simps)
qed

lemma msPerDay_pos: "0 < msPerDay"
  by (simp add: msPerDay_def)

lemma day_bounds: "(y div msPerDay = n) = (msPerDay * n \<le> y \<and> y < msPerDay * n + msPerDay)"
  using msPerDay_pos by (rule div_eq_iff_bounds)

subsection \<open>The two blocks of the loop body\<close>

text \<open>
  When the start of the entry's day is not after its end, the \<open>before\<close> block excludes
  the entry exactly when the bound is earlier than the start of the entry's day, and the
  \<open>after\<close> block exactly when the bound is later than the end of the entry's day.
\<close>

lemma excludedByBefore_start:
  assumes "setHours_0 P p \<le> setHours_23 P p"
  shows "excludedByBefore P (Some p) (Some b) \<longleftrightarrow> b < setHours_0 P p"
  using assms
  by (auto simp: excludedByBefore_def isSame_day_def isBefore_day_def startOf_day_def
        endOf_day_def js_le_def js_lt_def)

lemma excludedByAfter_end:
  assumes "setHours_0 P p \<le> setHours_23 P p"
  shows "excludedByAfter P (Some p) (Some a) \<longleftrightarrow> setHours_23 P p < a"
  using assms
  by (auto simp: excludedByAfter_def isSame_day_def isAfter_day_def startOf_day_def
        endOf_day_def js_le_def js_lt_def)

lemma calendarDays_order:
  assumes "calendarDays P dayOf"
  shows "setHours_0 P p \<le> p" "p \<le> setHours_23 P p"
  using assms unfolding calendarDays_def by blast+

lemma calendarDays_before:
  assumes "calendarDays P dayOf"
  shows "b < setHours_0 P p \<longleftrightarrow> dayOf b < dayOf p"
proof
  assume lt: "b < setHours_0 P p"
  from assms have "dayOf b \<le> dayOf (setHours_0 P p)" and "dayOf (setHours_0 P p) = dayOf p"
    using lt unfolding calendarDays_def by (metis less_imp_le)+
  then have le: "dayOf b \<le> dayOf p"
    by simp
  have "dayOf b \<noteq> dayOf p"
  proof
    assume "dayOf b = dayOf p"
    with assms have "setHours_0 P p \<le> b"
      unfolding calendarDays_def by blast
    with lt show False by simp
  qed
  with le show "dayOf b < dayOf p" by simp
next
  assume lt: "dayOf b < dayOf p"
  show "b < setHours_0 P p"
  proof (rule ccontr)
    assume "\<not> b < setHours_0 P p"
    then have "setHours_0 P p \<le> b" by simp
    with assms have "dayOf (setHours_0 P p) \<le> dayOf b" and "dayOf (setHours_0 P p) = dayOf p"
      unfolding calendarDays_def by blast+
    with lt show False by simp
  qed
qed

lemma calendarDays_after:
  assumes "calendarDays P dayOf"
  shows "setHours_23 P p < a \<longleftrightarrow> dayOf p < dayOf a"
proof
  assume lt: "setHours_23 P p < a"
  from assms have "dayOf (setHours_23 P p) \<le> dayOf a" and "dayOf (setHours_23 P p) = dayOf p"
    using lt unfolding calendarDays_def by (metis less_imp_le)+
  then have le: "dayOf p \<le> dayOf a"
    by simp
  have "dayOf a \<noteq> dayOf p"
  proof
    assume "dayOf a = dayOf p"
    with assms have "a \<le> setHours_23 P p"
      unfolding calendarDays_def by blast
    with lt show False by simp
  qed
  with le show "dayOf p < dayOf a" by simp
next
  assume lt: "dayOf p < dayOf a"
  show "setHours_23 P p < a"
  proof (rule ccontr)
    assume "\<not> setHours_23 P p < a"
    then have "a \<le> setHours_23 P p" by simp
    with assms have "dayOf a \<le> dayOf (setHours_23 P p)" and "dayOf (setHours_23 P p) = dayOf p"
      unfolding calendarDays_def by blast+
    with lt show False by simp
  qed
qed

lemma excludedByBefore_days:
  assumes "calendarDays P dayOf"
  shows "excludedByBefore P (Some p) (Some b) \<longleftrightarrow> dayOf b < dayOf p"
proof -
  from calendarDays_order [OF assms, of p] have "setHours_0 P p \<le> setHours_23 P p"
    by simp
  then show ?thesis
    by (simp add: excludedByBefore_start calendarDays_before [OF assms])
qed

lemma excludedByAfter_days:
  assumes "calendarDays P dayOf"
  shows "excludedByAfter P (Some p) (Some a) \<longleftrightarrow> dayOf p < dayOf a"
proof -
  from calendarDays_order [OF assms, of p] have "setHours_0 P p \<le> setHours_23 P p"
    by simp
  then show ?thesis
    by (simp add: excludedByAfter_end calendarDays_after [OF assms])
qed

lemma invalid_date_excluded:
  "excludedByBefore P None d" "excludedByBefore P d None"
  "excludedByAfter P None d" "excludedByAfter P d None"
  by (auto simp: excludedByBefore_def excludedByAfter_def isSame_day_def isBefore_day_def
        isAfter_day_def startOf_day_def endOf_day_def js_le_def js_lt_def split: option.splits)

subsection \<open>Zones with a fixed offset\<close>

lemma fixedOffset_calendarDays:
  assumes "setHours_0 P = fixedOffset_setHours_0 z" and "setHours_23 P = fixedOffset_setHours_23 z"
  shows "calendarDays P (fixedOffsetDay z)"
proof -
  have mono: "fixedOffsetDay z t \<le> fixedOffsetDay z u" if "t \<le> u" for t u
    using that msPerDay_pos by (simp add: fixedOffsetDay_def zdiv_mono1)
  have on0: "fixedOffsetDay z (fixedOffset_setHours_0 z t) = fixedOffsetDay z t" for t
    using msPerDay_pos by (simp add: fixedOffsetDay_def fixedOffset_setHours_0_def)
  have on23: "fixedOffsetDay z (fixedOffset_setHours_23 z t) = fixedOffsetDay z t" for t
    unfolding fixedOffsetDay_def fixedOffset_setHours_23_def day_bounds
    using msPerDay_pos by simp
  have between: "fixedOffset_setHours_0 z t \<le> u \<and> u \<le> fixedOffset_setHours_23 z t"
    if "fixedOffsetDay z u = fixedOffsetDay z t" for t u
    using that unfolding fixedOffsetDay_def fixedOffset_setHours_0_def fixedOffset_setHours_23_def
      day_bounds [of "u + z * 60000"]
    by simp
  from mono on0 on23 between show ?thesis
    unfolding calendarDays_def assms by blast
qed

subsection \<open>The zone with daylight saving\<close>

lemma dstDay_bounds:
  "(dstDay t = n) =
     (if t < springForward \<or> fallBack \<le> t
      then 86400000 * n \<le> t - 18000000 \<and> t - 18000000 < 86400000 * n + 86400000
      else 86400000 * n \<le> t - 14400000 \<and> t - 14400000 < 86400000 * n + 86400000)"
  unfolding dstDay_def dstOffset_def
  using day_bounds [of "t + - 18000000" n] day_bounds [of "t + - 14400000" n]
  by (simp add: msPerDay_def)

lemma dstDay_mono:
  assumes "t \<le> u"
  shows "dstDay t \<le> dstDay u"
proof (cases "springForward \<le> t \<and> t < fallBack \<and> fallBack \<le> u")
  case True
  then have "t + dstOffset t \<le> fallBack - 1 - 14400000"
    and "fallBack - 18000000 \<le> u + dstOffset u"
    by (simp_all add: dstOffset_def)
  then have "dstDay t \<le> (fallBack - 1 - 14400000) div msPerDay"
    and "(fallBack - 18000000) div msPerDay \<le> dstDay u"
    unfolding dstDay_def using msPerDay_pos by (simp_all add: zdiv_mono1)
  moreover have "(fallBack - 1 - 14400000) div msPerDay = 18567"
    and "(fallBack - 18000000) div msPerDay = 18567"
    by (simp_all add: fallBack_def msPerDay_def)
  ultimately show ?thesis
    by simp
next
  case False
  with assms have "t + dstOffset t \<le> u + dstOffset u"
    by (auto simp: dstOffset_def springForward_def fallBack_def)
  then show ?thesis
    unfolding dstDay_def using msPerDay_pos by (rule zdiv_mono1)
qed

lemma dst_setHours_0_cases:
  "dst_setHours_0 t =
     (if dstDay t \<le> 18329 \<or> 18568 \<le> dstDay t then 86400000 * dstDay t + 18000000
      else 86400000 * dstDay t + 14400000)"
proof -
  consider "dstDay t \<le> 18329" | "18330 \<le> dstDay t" "dstDay t \<le> 18567" | "18568 \<le> dstDay t"
    by linarith
  then show ?thesis
    by cases
       (simp_all add: dst_setHours_0_def dstInstant_def msPerDay_def springForward_def fallBack_def)
qed

lemma dst_setHours_23_cases:
  "dst_setHours_23 t =
     (if dstDay t \<le> 18328 \<or> 18567 \<le> dstDay t then 86400000 * dstDay t + 86399999 + 18000000
      else 86400000 * dstDay t + 86399999 + 14400000)"
proof -
  consider "dstDay t \<le> 18328" | "18329 \<le> dstDay t" "dstDay t \<le> 18566" | "18567 \<le> dstDay t"
    by linarith
  then show ?thesis
    by cases
       (simp_all add: dst_setHours_23_def dstInstant_def msPerDay_def springForward_def fallBack_def)
qed

lemma dstDay_setHours_0: "dstDay (dst_setHours_0 t) = dstDay t"
proof -
  consider "dstDay t \<le> 18329" | "18330 \<le> dstDay t" "dstDay t \<le> 18567" | "18568 \<le> dstDay t"
    by linarith
  then show ?thesis
    by cases
       (simp_all add: dstDay_bounds dst_setHours_0_cases springForward_def fallBack_def)
qed

lemma dstDay_setHours_23: "dstDay (dst_setHours_23 t) = dstDay t"
proof -
  consider "dstDay t \<le> 18328" | "18329 \<le> dstDay t" "dstDay t \<le> 18566" | "18567 \<le> dstDay t"
    by linarith
  then show ?thesis
    by cases
       (simp_all add: dstDay_bounds dst_setHours_23_cases springForward_def fallBack_def)
qed

lemma dstDay_between:
  assumes "dstDay u = dstDay t"
  shows "dst_setHours_0 t \<le> u \<and> u \<le> dst_setHours_23 t"
proof -
  define n where "n = dstDay t"
  from assms have u: "dstDay u = n"
    by (simp add: n_def)
  consider "n \<le> 18328" | "n = 18329" | "18330 \<le> n" "n \<le> 18566" | "n = 18567" | "18568 \<le> n"
    by linarith
  then show ?thesis
  proof cases
    case 1
    with u show ?thesis
      unfolding dst_setHours_0_cases dst_setHours_23_cases n_def [symmetric]
      by (simp add: dstDay_bounds springForward_def fallBack_def split: if_splits)
  next
    case 2
    with u show ?thesis
      unfolding dst_setHours_0_cases dst_setHours_23_cases n_def [symmetric]
      by (simp add: dstDay_bounds springForward_def fallBack_def split: if_splits)
  next
    case 3
    with u show ?thesis
      unfolding dst_setHours_0_cases dst_setHours_23_cases n_def [symmetric]
      by (simp add: dstDay_bounds springForward_def fallBack_def split: if_splits)
  next
    case 4
    with u show ?thesis
      unfolding dst_setHours_0_cases dst_setHours_23_cases n_def [symmetric]
      by (simp add: dstDay_bounds springForward_def fallBack_def split: if_splits)
  next
    case 5
    with u show ?thesis
      unfolding dst_setHours_0_cases dst_setHours_23_cases n_def [symmetric]
      by (simp add: dstDay_bounds springForward_def fallBack_def split: if_splits)
  qed
qed

lemma dst_calendarDays:
  assumes "setHours_0 P = dst_setHours_0" and "setHours_23 P = dst_setHours_23"
  shows "calendarDays P dstDay"
  unfolding calendarDays_def assms
  using dstDay_mono dstDay_setHours_0 dstDay_setHours_23 dstDay_between by blast

text \<open>The local day 2020-03-08 of that zone has 23 hours, the local day 2020-11-01 has 25.\<close>

lemma dst_day_lengths:
  "dst_setHours_23 1583650800000 - dst_setHours_0 1583650800000 + 1 = 23 * 3600000"
  "dst_setHours_23 1604210400000 - dst_setHours_0 1604210400000 + 1 = 25 * 3600000"
  by (simp_all add: dst_setHours_0_cases dst_setHours_23_cases dstDay_def dstOffset_def
        springForward_def fallBack_def msPerDay_def)

subsection \<open>The claim about the date bounds\<close>

text \<open>
  Claim C8, as the code has it. The days compared are calendar days of the local time
  zone, whatever their length, in every zone whose days \<^verbatim>\<open>setHours\<close> delimits
  (\<open>calendarDays\<close>): for an entry and a bound with valid dates, the \<open>before\<close> block
  excludes the entry exactly when its local day is after the bound's local day, and the
  \<open>after\<close> block exactly when its local day is before the bound's. An invalid date on
  either side excludes the entry. In the loop the two blocks are applied to the parsed
  publish date and the parsed bound whenever the bound is a non-empty text. Every zone
  with a fixed offset from UTC is such a zone, and so is the zone with daylight saving
  defined above. Where local time is UTC, with the bound 2020-01-10 (midnight UTC,
  1578614400000 ms) the entry published at 2020-01-10T23:00:00Z (1578697200000 ms) is
  kept and the entry published at 2020-01-11T00:01:00Z (1578700860000 ms) is excluded.
\<close>

theorem date_bounds_by_local_day:
  "(calendarDays P dayOf \<longrightarrow>
      (excludedByBefore P (Some p) (Some b) \<longleftrightarrow> dayOf b < dayOf p)
      \<and> (excludedByAfter P (Some p) (Some a) \<longleftrightarrow> dayOf p < dayOf a))
   \<and> excludedByBefore P None d \<and> excludedByBefore P d None
   \<and> excludedByAfter P None d \<and> excludedByAfter P d None
   \<and> (bound_text \<noteq> [] \<longrightarrow>
         beforePredicate P (Some bound_text) pub
           = (\<not> excludedByBefore P pub (Date_parse P bound_text))
         \<and> afterPredicate P (Some bound_text) pub
           = (\<not> excludedByAfter P pub (Date_parse P bound_text)))
   \<and> (setHours_0 P = fixedOffset_setHours_0 minutes
        \<and> setHours_23 P = fixedOffset_setHours_23 minutes \<longrightarrow>
          calendarDays P (fixedOffsetDay minutes))
   \<and> (setHours_0 P = dst_setHours_0 \<and> setHours_23 P = dst_setHours_23 \<longrightarrow>
          calendarDays P dstDay)
   \<and> (setHours_0 P = fixedOffset_setHours_0 0 \<and> setHours_23 P = fixedOffset_setHours_23 0 \<longrightarrow>
         \<not> excludedByBefore P (Some 1578697200000) (Some 1578614400000)
         \<and> excludedByBefore P (Some 1578700860000) (Some 1578614400000))"
proof -
  have days: "calendarDays P dayOf \<longrightarrow>
      (excludedByBefore P (Some p) (Some b) \<longleftrightarrow> dayOf b < dayOf p)
      \<and> (excludedByAfter P (Some p) (Some a) \<longleftrightarrow> dayOf p < dayOf a)"
    using excludedByBefore_days excludedByAfter_days by blast
  have loop: "bound_text \<noteq> [] \<longrightarrow>
         beforePredicate P (Some bound_text) pub
           = (\<not> excludedByBefore P pub (Date_parse P bound_text))
         \<and> afterPredicate P (Some bound_text) pub
           = (\<not> excludedByAfter P pub (Date_parse P bound_text))"
    by (simp add: beforePredicate_def afterPredicate_def truthy_def new_Date_def)
  have fixed: "setHours_0 P = fixedOffset_setHours_0 minutes
        \<and> setHours_23 P = fixedOffset_setHours_23 minutes \<longrightarrow>
          calendarDays P (fixedOffsetDay minutes)"
    using fixedOffset_calendarDays by blast
  have dst: "setHours_0 P = dst_setHours_0 \<and> setHours_23 P = dst_setHours_23 \<longrightarrow>
          calendarDays P dstDay"
    using dst_calendarDays by blast
  have utc: "\<not> excludedByBefore P (Some 1578697200000) (Some 1578614400000)
         \<and> excludedByBefore P (Some 1578700860000) (Some 1578614400000)"
    if z: "setHours_0 P = fixedOffset_setHours_0 0 \<and> setHours_23 P = fixedOffset_setHours_23 0"
  proof -
    from z have "calendarDays P (fixedOffsetDay 0)"
      using fixedOffset_calendarDays by blast
    then show ?thesis
      by (simp add: excludedByBefore_days fixedOffsetDay_def msPerDay_def)
  qed
  from days invalid_date_excluded loop fixed dst utc
  show ?thesis
    by blast
qed

theorem date_bounds_by_local_day_witness:
  "calendarDays demoPlatform (fixedOffsetDay 0)
   \<and> beforePredicate demoPlatform (Some ''2020-01-10'') (Some 1578697200000)
   \<and> \<not> beforePredicate demoPlatform (Some ''2020-01-10'') (Some 1578700860000)
   \<and> getItemsToDownload demoPlatform noFiles untilJan10
       = Inr [(dated ''e1'' ''2020-01-10T23:00:00Z'')
                \<lparr>originalIndex := Some 1, extra_downloads := Some []\<rparr>]
   \<and> calendarDays daylightSaving dstDay
   \<and> dstDay 1583668800000 = 18329 \<and> dstDay 1583724600000 = 18329 \<and> dstDay 1583728200000 = 18330
   \<and> \<not> excludedByBefore daylightSaving (Some 1583724600000) (Some 1583668800000)
   \<and> excludedByBefore daylightSaving (Some 1583728200000) (Some 1583668800000)"
proof -
  have z: "setHours_0 demoPlatform = fixedOffset_setHours_0 0
           \<and> setHours_23 demoPlatform = fixedOffset_setHours_23 0"
    by (simp add: demoPlatform_simps)
  have s: "setHours_0 daylightSaving = dst_setHours_0 \<and> setHours_23 daylightSaving = dst_setHours_23"
    by (simp add: daylightSaving_def)
  have b: "Date_parse demoPlatform ''2020-01-10'' = Some 1578614400000"
    by (simp add: demoPlatform_simps demo_Date_parse_def)
  have n: "''2020-01-10'' \<noteq> []"
    by simp
  have days: "dstDay 1583668800000 = 18329" "dstDay 1583724600000 = 18329"
    "dstDay 1583728200000 = 18330"
    by (simp_all add: dstDay_def dstOffset_def springForward_def fallBack_def msPerDay_def)
  note inst = date_bounds_by_local_day [of demoPlatform _ _ _ _ _ "''2020-01-10''" _ 0]
  from inst z
  have cal: "calendarDays demoPlatform (fixedOffsetDay 0)"
    by blast
  from inst z
  have utc: "\<not> excludedByBefore demoPlatform (Some 1578697200000) (Some 1578614400000)"
    "excludedByBefore demoPlatform (Some 1578700860000) (Some 1578614400000)"
    by blast+
  from inst [where pub = "Some 1578697200000"] n
  have "beforePredicate demoPlatform (Some ''2020-01-10'') (Some 1578697200000)
          = (\<not> excludedByBefore demoPlatform (Some 1578697200000)
                 (Date_parse demoPlatform ''2020-01-10''))"
    by blast
  with utc b
  have 1: "beforePredicate demoPlatform (Some ''2020-01-10'') (Some 1578697200000)"
    by simp
  from inst [where pub = "Some 1578700860000"] n
  have "beforePredicate demoPlatform (Some ''2020-01-10'') (Some 1578700860000)
          = (\<not> excludedByBefore demoPlatform (Some 1578700860000)
                 (Date_parse demoPlatform ''2020-01-10''))"
    by blast
  with utc b
  have 2: "\<not> beforePredicate demoPlatform (Some ''2020-01-10'') (Some 1578700860000)"
    by simp
  have 3: "getItemsToDownload demoPlatform noFiles untilJan10
       = Inr [(dated ''e1'' ''2020-01-10T23:00:00Z'')
                \<lparr>originalIndex := Some 1, extra_downloads := Some []\<rparr>]"
    by code_simp
  from date_bounds_by_local_day [of daylightSaving] s
  have dcal: "calendarDays daylightSaving dstDay"
    by blast
  from date_bounds_by_local_day [of daylightSaving dstDay 1583724600000 1583668800000] dcal
  have 4: "excludedByBefore daylightSaving (Some 1583724600000) (Some 1583668800000)
             \<longleftrightarrow> dstDay 1583668800000 < dstDay 1583724600000"
    by blast
  from date_bounds_by_local_day [of daylightSaving dstDay 1583728200000 1583668800000] dcal
  have 5: "excludedByBefore daylightSaving (Some 1583728200000) (Some 1583668800000)
             \<longleftrightarrow> dstDay 1583668800000 < dstDay 1583728200000"
    by blast
  from cal 1 2 3 dcal days 4 5 show ?thesis
    by simp
qed

text \<open>
  One hour east of UTC the entry published at 2020-01-10T23:00:00Z falls on the local
  day 2020-01-11, and the bound \<^verbatim>\<open>before = 2020-01-10\<close> excludes it.
\<close>

theorem date_scenario_counterexample:
  "Date_parse utcPlusOne ''2020-01-10'' = Some 1578614400000
   \<and> Date_parse utcPlusOne ''2020-01-10T23:00:00Z'' = Some 1578697200000
   \<and> excludedByBefore utcPlusOne (Some 1578697200000) (Some 1578614400000)
   \<and> getItemsToDownload utcPlusOne noFiles untilJan10 = Inr []"
  by code_simp

section \<open>Properties of the field projection\<close>

subsection \<open>The patterns of the two star rules\<close>

lemma test_NotDot_star: "test [(NotDot, ZeroOrMore)] k \<longleftrightarrow> CHR ''.'' \<notin> set k"
  by (induction k) auto

lemma test_NotDot_plus: "test [(NotDot, OneOrMore)] k \<longleftrightarrow> plainKey k"
  by (cases k) (auto simp: plainKey_def test_NotDot_star)

lemma star_rules:
  "processFieldRules [''*''] = Inr [\<lparr>rule_include = True, rule_pattern = [(NotDot, OneOrMore)]\<rparr>]"
  "processFieldRules [''!*''] = Inr [\<lparr>rule_include = False, rule_pattern = [(NotDot, OneOrMore)]\<rparr>]"
  by code_simp+

lemma reserved_entries_kept:
  "list_all isReserved kvs \<Longrightarrow> applyFieldRules kvs rules pfx = kvs"
  by (induction kvs) (auto simp: isReserved_def reservedKey_def)

lemma reserved_passed_through:
  "filter isReserved (applyFieldRules object rules pfx) = filter isReserved object"
  by (induction object)
     (auto simp: isReserved_def reservedKey_def split: option.splits)

lemma include_all_value:
  assumes "plainKey k"
  shows "standsWhole v \<Longrightarrow>
           getToInclude [\<lparr>rule_include = True, rule_pattern = [(NotDot, OneOrMore)]\<rparr>] v k = Some v"
proof (induction v rule: standsWhole.induct)
  case (1 vs)
  let ?rules = "[\<lparr>rule_include = True, rule_pattern = [(NotDot, OneOrMore)]\<rparr>]"
  have "list_all standsWhole ws \<Longrightarrow> set ws \<subseteq> set vs \<Longrightarrow> getToIncludeAll ?rules ws k = ws" for ws
    by (induction ws) (auto simp: "1.IH")
  with "1.prems" show ?case
    by simp
next
  case (2 kvs)
  then show ?case
    by (simp add: reserved_entries_kept)
qed (use assms in \<open>simp_all add: test_NotDot_plus\<close>)

lemma include_all_object:
  "\<forall>(k, v)\<in>set object. reservedKey k \<or> (plainKey k \<and> k \<noteq> ''__proto__'' \<and> standsWhole v) \<Longrightarrow>
     applyFieldRules object [\<lparr>rule_include = True, rule_pattern = [(NotDot, OneOrMore)]\<rparr>] [] = object"
  by (induction object) (auto simp: reservedKey_def include_all_value)

lemma exclude_all_value:
  "noReserved v \<Longrightarrow>
     getToInclude [\<lparr>rule_include = False, rule_pattern = [(NotDot, OneOrMore)]\<rparr>] v k = None"
  "noReservedAll vs \<Longrightarrow>
     getToIncludeAll [\<lparr>rule_include = False, rule_pattern = [(NotDot, OneOrMore)]\<rparr>] vs k = []"
  "noReservedEntries kvs \<Longrightarrow>
     applyFieldRules kvs [\<lparr>rule_include = False, rule_pattern = [(NotDot, OneOrMore)]\<rparr>] pfx = []"
  by (induction v and vs and kvs arbitrary: k and k and pfx
        rule: noReserved_noReservedAll_noReservedEntries.induct)
     (auto simp: reservedKey_def)

lemma exclude_all_object:
  "\<forall>(k, v)\<in>set object. reservedKey k \<or> noReserved v \<Longrightarrow>
     applyFieldRules object [\<lparr>rule_include = False, rule_pattern = [(NotDot, OneOrMore)]\<rparr>] []
       = filter isReserved object"
  by (induction object)
     (auto simp: isReserved_def reservedKey_def exclude_all_value(1))

subsection \<open>Compiling rules\<close>

lemma backslash_not_bang [simp]: "backslash \<noteq> CHR ''!''" "CHR ''!'' \<noteq> backslash"
  by (simp_all add: backslash_def)

lemma processFieldRule_exclude:
  "processFieldRule (''!'' @ g)
     = map_sum id (\<lambda>re. \<lparr>rule_include = False, rule_pattern = re\<rparr>) (globToRegExp g)"
  by (simp add: processFieldRule_def)

lemma processFieldRule_escaped_bang:
  "processFieldRule (backslash # ''!'' @ g)
     = map_sum id (\<lambda>re. \<lparr>rule_include = True, rule_pattern = re\<rparr>) (globToRegExp (''!'' @ g))"
  by (simp add: processFieldRule_def)

lemma processFieldRule_plain:
  "\<not> prefix ''!'' pat \<Longrightarrow> \<not> prefix [backslash, CHR ''!''] pat \<Longrightarrow>
     processFieldRule pat
       = map_sum id (\<lambda>re. \<lparr>rule_include = True, rule_pattern = re\<rparr>) (globToRegExp pat)"
  by (simp add: processFieldRule_def)

lemma bang_not_special: "CHR ''!'' \<notin> set regexSpecials"
  by (simp add: regexSpecials_def backslash_def)

lemma escapeSpecials_Cons:
  "escapeSpecials (c # g) = (if c \<in> set regexSpecials then [backslash, c] else [c]) @ escapeSpecials g"
  by (simp add: escapeSpecials_def)

lemma escapeSpecials_head:
  "escapeSpecials g = c # s \<Longrightarrow> c \<noteq> CHR ''+''"
proof (cases g)
  case Nil
  then show "escapeSpecials g = c # s \<Longrightarrow> c \<noteq> CHR ''+''"
    by (simp add: escapeSpecials_def)
next
  case (Cons d g')
  then show "escapeSpecials g = c # s \<Longrightarrow> c \<noteq> CHR ''+''"
    by (auto simp: escapeSpecials_Cons regexSpecials_def backslash_def split: if_splits)
qed

lemma replaceFirst_stars_head:
  "replaceFirst ''**'' ''.+'' s = c # t \<Longrightarrow> c = CHR ''.'' \<or> (\<exists>t'. s = c # t')"
  by (cases s) (auto split: if_splits)

lemma replaceFirst_star_head:
  "replaceFirst ''*'' ''[^.]+'' s = c # t \<Longrightarrow> c \<noteq> CHR ''*'' \<and> (c = CHR ''['' \<or> (\<exists>t'. s = c # t'))"
  by (cases s) (auto split: if_splits)

lemma glob_body_head:
  assumes "replaceFirst ''*'' ''[^.]+'' (replaceFirst ''**'' ''.+'' (escapeSpecials g)) = c # t"
  shows "c \<noteq> CHR ''*'' \<and> c \<noteq> CHR ''+''"
proof -
  from replaceFirst_star_head [OF assms] have star: "c \<noteq> CHR ''*''"
    and "c = CHR ''['' \<or> (\<exists>t'. replaceFirst ''**'' ''.+'' (escapeSpecials g) = c # t')"
    by auto
  then consider "c = CHR ''[''" | t' where "replaceFirst ''**'' ''.+'' (escapeSpecials g) = c # t'"
    by auto
  then have "c \<noteq> CHR ''+''"
  proof cases
    case 1
    then show ?thesis by simp
  next
    case 2
    from replaceFirst_stars_head [OF 2] show ?thesis
      using escapeSpecials_head by auto
  qed
  with star show ?thesis by simp
qed

lemma globSource_bang:
  "globSource (CHR ''!'' # g)
     = CHR ''^'' # CHR ''!'' #
         replaceFirst ''*'' ''[^.]+'' (replaceFirst ''**'' ''.+'' (escapeSpecials g)) @ ''$''"
  by (simp add: globSource_def escapeSpecials_Cons bang_not_special)

lemma literal_bang:
  assumes "globToRegExp (CHR ''!'' # g) = Inr re"
  shows "\<exists>r. re = (Lit (CHR ''!''), Once) # r"
proof -
  let ?body = "replaceFirst ''*'' ''[^.]+'' (replaceFirst ''**'' ''.+'' (escapeSpecials g))"
  have q: "quantified (Lit (CHR ''!'')) ?body = ((Lit (CHR ''!''), Once), ?body)"
  proof (cases ?body)
    case Nil
    then show ?thesis by simp
  next
    case (Cons c t)
    with glob_body_head [OF Cons] show ?thesis by simp
  qed
  have "globToRegExp (CHR ''!'' # g) = parseTerms (CHR ''!'' # ?body)"
    unfolding globToRegExp_def globSource_bang RegExp_def by simp
  also have "\<dots> = (case parseTerms ?body of Inl e \<Rightarrow> Inl e
                     | Inr r \<Rightarrow> Inr ((Lit (CHR ''!''), Once) # r))"
    using bang_not_special by (simp add: q backslash_def cong: sum.case_cong)
  finally show ?thesis
    using assms by (auto split: sum.splits)
qed

lemma test_literal_head: "test ((Lit d, Once) # r) k \<Longrightarrow> \<exists>k'. k = d # k'"
  by (cases k) auto

lemma find_append_last:
  "P x \<Longrightarrow> \<forall>y\<in>set ys. \<not> P y \<Longrightarrow> find P (rev (xs @ [x] @ ys)) = Some x"
  by (induction ys rule: rev_induct) auto

lemma processFieldRules_nth:
  "processFieldRules patterns = Inr rules \<Longrightarrow>
     length rules = length patterns
     \<and> (\<forall>i<length patterns. processFieldRule (patterns ! i) = Inr (rules ! i))"
proof (induction patterns arbitrary: rules)
  case Nil
  then show ?case by simp
next
  case (Cons pat pats)
  then obtain r rs where r: "processFieldRule pat = Inr r" and rs: "processFieldRules pats = Inr rs"
    and rules: "rules = r # rs"
    by (auto split: sum.splits)
  from Cons.IH [OF rs] r rules show ?case
    by (auto simp: nth_Cons split: nat.splits)
qed

subsection \<open>The modelled part of the syntax is all that globs need\<close>

text \<open>
  Whatever the glob, the source text that \<open>globSource\<close> builds is read by \<open>RegExp\<close>:
  it is never outside the modelled part of the syntax. A glob either compiles or leaves
  a \<^verbatim>\<open>*\<close> with nothing to repeat, which is the constructor's \<^verbatim>\<open>SyntaxError\<close>.
\<close>

lemma special_chars:
  "backslash \<in> set regexSpecials" "CHR ''.'' \<in> set regexSpecials" "CHR ''['' \<in> set regexSpecials"
  "CHR ''+'' \<in> set regexSpecials" "CHR ''*'' \<notin> set regexSpecials"
  "CHR ''*'' \<noteq> backslash" "CHR ''+'' \<noteq> backslash"
  by (simp_all add: regexSpecials_def backslash_def)

lemma tokens_escapeSpecials: "tokens (escapeSpecials g)"
proof (induction g)
  case Nil
  show ?case by (simp add: escapeSpecials_def)
next
  case (Cons c g)
  have "escapeSpecials (c # g)
          = (if c \<in> set regexSpecials then [backslash, c] else [c]) @ escapeSpecials g"
    by (simp add: escapeSpecials_def)
  with Cons show ?case
    using special_chars by auto
qed

lemma tokens_replace_stars: "tokens s \<Longrightarrow> tokens (replaceFirst ''**'' ''.+'' s)"
proof (induction s rule: tokens.induct)
  case 1
  show ?case by simp
next
  case (2 c s)
  consider (esc) "c = backslash" | (dot) "c \<noteq> backslash" "c = CHR ''.''"
    | (cls) "c \<noteq> backslash" "c \<noteq> CHR ''.''" "c = CHR ''[''"
    | (raw) "c \<noteq> backslash" "c \<noteq> CHR ''.''" "c \<noteq> CHR ''[''"
    by blast
  then show ?case
  proof cases
    case esc
    with "2.prems" obtain d s' where s: "s = d # s'" and d: "d \<in> set regexSpecials" and t: "tokens s'"
      by (auto split: list.splits)
    from d have "d \<noteq> CHR ''*''"
      using special_chars by auto
    with esc s d "2.IH"(1) [OF esc s t] show ?thesis
      using special_chars by simp
  next
    case dot
    with "2.prems" obtain s' where s: "s = CHR ''+'' # s'" and t: "tokens s'"
      by (auto split: list.splits)
    with dot "2.IH"(2) [OF dot(1) dot(2) s t] show ?thesis
      by simp
  next
    case cls
    with "2.prems" obtain s' where s: "s = ''^.]+'' @ s'" and t: "tokens s'"
      by (auto simp: prefix_def)
    with cls "2.IH"(3) [OF cls(1) cls(2) cls(3)] show ?thesis
      by simp
  next
    case raw
    with "2.prems" have c: "c \<notin> set regexSpecials" and t: "tokens s"
      by auto
    show ?thesis
    proof (cases "prefix ''**'' (c # s)")
      case True
      then obtain s' where "c = CHR ''*''" "s = CHR ''*'' # s'"
        by (auto simp: prefix_def)
      with t show ?thesis
        using special_chars by simp
    next
      case False
      with raw c "2.IH"(4) [OF raw(1) raw(2) raw(3) t] show ?thesis
        by (auto simp: backslash_def)
    qed
  qed
qed

lemma tokens_replace_star: "tokens s \<Longrightarrow> tokens (replaceFirst ''*'' ''[^.]+'' s)"
proof (induction s rule: tokens.induct)
  case 1
  show ?case by simp
next
  case (2 c s)
  consider (esc) "c = backslash" | (dot) "c \<noteq> backslash" "c = CHR ''.''"
    | (cls) "c \<noteq> backslash" "c \<noteq> CHR ''.''" "c = CHR ''[''"
    | (raw) "c \<noteq> backslash" "c \<noteq> CHR ''.''" "c \<noteq> CHR ''[''"
    by blast
  then show ?case
  proof cases
    case esc
    with "2.prems" obtain d s' where s: "s = d # s'" and d: "d \<in> set regexSpecials" and t: "tokens s'"
      by (auto split: list.splits)
    from d have "d \<noteq> CHR ''*''"
      using special_chars by auto
    with esc s d "2.IH"(1) [OF esc s t] show ?thesis
      using special_chars by simp
  next
    case dot
    with "2.prems" obtain s' where s: "s = CHR ''+'' # s'" and t: "tokens s'"
      by (auto split: list.splits)
    with dot "2.IH"(2) [OF dot(1) dot(2) s t] show ?thesis
      by simp
  next
    case cls
    with "2.prems" obtain s' where s: "s = ''^.]+'' @ s'" and t: "tokens s'"
      by (auto simp: prefix_def)
    with cls "2.IH"(3) [OF cls(1) cls(2) cls(3)] show ?thesis
      by simp
  next
    case raw
    with "2.prems" have c: "c \<notin> set regexSpecials" and t: "tokens s"
      by auto
    show ?thesis
    proof (cases "c = CHR ''*''")
      case True
      with t show ?thesis
        by (simp add: backslash_def)
    next
      case False
      with raw c "2.IH"(4) [OF raw(1) raw(2) raw(3) t] show ?thesis
        by simp
    qed
  qed
qed

lemma tokens_after_quantifier: "tokens s \<Longrightarrow> tokens (snd (quantified a s))"
  using special_chars by (cases s) (auto split: if_splits)

lemma parseTerms_supported: "tokens s \<Longrightarrow> parseTerms s \<noteq> Inl Unsupported_Pattern"
proof (induction s rule: parseTerms.induct)
  case 1
  show ?case by simp
next
  case (2 c cs)
  consider (esc) "c = backslash" | (dot) "c \<noteq> backslash" "c = CHR ''.''"
    | (cls) "c \<noteq> backslash" "c \<noteq> CHR ''.''" "c = CHR ''[''"
    | (rep) "c \<noteq> backslash" "c \<noteq> CHR ''.''" "c \<noteq> CHR ''[''" "c = CHR ''*'' \<or> c = CHR ''+''"
    | (raw) "c \<noteq> backslash" "c \<noteq> CHR ''.''" "c \<noteq> CHR ''[''" "\<not> (c = CHR ''*'' \<or> c = CHR ''+'')"
    by blast
  then show ?case
  proof cases
    case esc
    with "2.prems" obtain d ds where cs: "cs = d # ds" and d: "d \<in> set regexSpecials" and t: "tokens ds"
      by (auto split: list.splits)
    from "2.IH"(1) [OF esc cs d] tokens_after_quantifier [OF t]
    have "parseTerms (snd (quantified (Lit d) ds)) \<noteq> Inl Unsupported_Pattern"
      by simp
    with esc cs d show ?thesis
      by (auto split: sum.splits)
  next
    case dot
    with "2.prems" obtain s' where cs: "cs = CHR ''+'' # s'" and t: "tokens s'"
      by (auto split: list.splits)
    then have q: "snd (quantified AnyChar cs) = s'"
      by simp
    from "2.IH"(2) [OF dot(1) dot(2)] q t
    have "parseTerms (snd (quantified AnyChar cs)) \<noteq> Inl Unsupported_Pattern"
      by simp
    with dot show ?thesis
      by (auto split: sum.splits)
  next
    case cls
    with "2.prems" obtain s' where cs: "cs = ''^.]+'' @ s'" and t: "tokens s'"
      by (auto simp: prefix_def)
    then have p: "prefix ''^.]'' cs" and q: "snd (quantified NotDot (drop 3 cs)) = s'"
      by simp_all
    from "2.IH"(3) [OF cls(1) cls(2) cls(3) p] q t
    have "parseTerms (snd (quantified NotDot (drop 3 cs))) \<noteq> Inl Unsupported_Pattern"
      by simp
    with cls p show ?thesis
      by (auto split: sum.splits)
  next
    case rep
    then show ?thesis
      by auto
  next
    case raw
    with "2.prems" have c: "c \<notin> set regexSpecials" and t: "tokens cs"
      by auto
    from "2.IH"(4) [OF raw(1) raw(2) raw(3) raw(4) c] tokens_after_quantifier [OF t]
    have "parseTerms (snd (quantified (Lit c) cs)) \<noteq> Inl Unsupported_Pattern"
      by simp
    with raw c show ?thesis
      by (auto split: sum.splits)
  qed
qed

lemma globToRegExp_supported: "globToRegExp g \<noteq> Inl Unsupported_Pattern"
proof -
  let ?body = "replaceFirst ''*'' ''[^.]+'' (replaceFirst ''**'' ''.+'' (escapeSpecials g))"
  have "tokens ?body"
    by (intro tokens_replace_star tokens_replace_stars tokens_escapeSpecials)
  moreover have "globToRegExp g = parseTerms ?body"
    by (simp add: globToRegExp_def globSource_def RegExp_def)
  ultimately show ?thesis
    by (simp add: parseTerms_supported)
qed

subsection \<open>Claims about the projection\<close>

text \<open>
  Claim C2, as the code has it. The rule \<^verbatim>\<open>*\<close> compiles to \<^verbatim>\<open>^[^.]+$\<close>, which matches
  the keys of the top level only. So \<^verbatim>\<open>getFields(object, ["*"])\<close> returns an equal
  copy of every object in which each key that is not reserved is not empty, has no
  dot, is not \<^verbatim>\<open>__proto__\<close>, and holds a value that stands whole: a scalar other than
  \<^verbatim>\<open>undefined\<close>, a non-empty array of such values, or a non-empty object with reserved
  keys only. Whatever the rules, the entries of the object under the reserved keys
  \<^verbatim>\<open>$\<close> and \<^verbatim>\<open>_\<close> are passed through as they are. And
  \<^verbatim>\<open>getFields(object, ["!*"])\<close> returns exactly the reserved entries of every object
  whose other values hold no reserved key at any depth.
\<close>

theorem projection_by_star_rules:
  "((\<forall>(k, v)\<in>set object.
        reservedKey k \<or> (plainKey k \<and> k \<noteq> ''__proto__'' \<and> standsWhole v)) \<longrightarrow>
       getFields object [''*''] = Inr object)
   \<and> (\<forall>patterns result.
         getFields object patterns = Inr result \<longrightarrow>
           filter isReserved result = filter isReserved object)
   \<and> ((\<forall>(k, v)\<in>set object. reservedKey k \<or> noReserved v) \<longrightarrow>
         getFields object [''!*''] = Inr (filter isReserved object))"
proof (intro conjI impI allI)
  assume "\<forall>(k, v)\<in>set object.
            reservedKey k \<or> (plainKey k \<and> k \<noteq> ''__proto__'' \<and> standsWhole v)"
  then show "getFields object [''*''] = Inr object"
    by (simp add: getFields_def star_rules(1) include_all_object del: processFieldRules.simps)
next
  fix patterns result
  assume "getFields object patterns = Inr result"
  then show "filter isReserved result = filter isReserved object"
    by (auto simp: getFields_def reserved_passed_through split: sum.splits)
next
  assume "\<forall>(k, v)\<in>set object. reservedKey k \<or> noReserved v"
  then show "getFields object [''!*''] = Inr (filter isReserved object)"
    by (simp add: getFields_def star_rules(2) exclude_all_object del: processFieldRules.simps)
qed

theorem projection_by_star_rules_witness:
  "getFields flatObject [''*''] = Inr flatObject
   \<and> filter isReserved flatObject = [(''$'', Obj [(''x.y'', Num 2)])]
   \<and> getFields flatObject [''tags''] = Inr (tl flatObject)
   \<and> filter isReserved (tl flatObject) = [(''$'', Obj [(''x.y'', Num 2)])]
   \<and> getFields plainObject [''!*''] = Inr [(''$'', Obj [(''x.y'', Num 2)])]"
proof -
  have a: "\<forall>(k, v)\<in>set flatObject.
             reservedKey k \<or> (plainKey k \<and> k \<noteq> ''__proto__'' \<and> standsWhole v)"
    by code_simp
  have b: "\<forall>(k, v)\<in>set plainObject. reservedKey k \<or> noReserved v"
    by code_simp
  have c: "filter isReserved flatObject = [(''$'', Obj [(''x.y'', Num 2)])]"
    "filter isReserved plainObject = [(''$'', Obj [(''x.y'', Num 2)])]"
    by code_simp+
  have t: "getFields flatObject [''tags''] = Inr (tl flatObject)"
    by code_simp
  from projection_by_star_rules [of flatObject] a
  have 1: "getFields flatObject [''*''] = Inr flatObject"
    by blast
  from projection_by_star_rules [of flatObject] t
  have 2: "filter isReserved (tl flatObject) = filter isReserved flatObject"
    by blast
  from projection_by_star_rules [of plainObject] b
  have 3: "getFields plainObject [''!*''] = Inr (filter isReserved plainObject)"
    by blast
  from 1 2 3 c t show ?thesis
    by simp
qed

text \<open>
  Under the rule \<^verbatim>\<open>*\<close> the object \<^verbatim>\<open>{a: {b: 1}}\<close> loses its field: the key path
  \<^verbatim>\<open>a.b\<close> has a dot, no rule matches it, and the emptied \<^verbatim>\<open>a\<close> is dropped.
\<close>

theorem include_all_counterexample:
  "getFields nestedObject [''*''] = Inr []
   \<and> getFields nestedObject [''*''] \<noteq> Inr nestedObject"
  by code_simp

text \<open>
  The first rule of the reversed list that matches is the last declared rule that
  matches.
\<close>

lemma find_rev:
  "find p (rev xs) = (case filter p xs of [] \<Rightarrow> None | r # rs \<Rightarrow> Some (last (r # rs)))"
  by (induction xs rule: rev_induct) (auto split: list.splits)

lemma find_reversed_lastMatching:
  "find (\<lambda>rule. test (rule_pattern rule) path) (rev declared) = lastMatching declared path"
  by (simp add: lastMatching_def find_rev)

lemma lastMatching_rev:
  "lastMatching (rev rules) path = find (\<lambda>rule. test (rule_pattern rule) path) rules"
  using find_reversed_lastMatching [of path "rev rules"] by simp

lemma lastMatching_later:
  assumes "test (rule_pattern later) path" and "\<forall>r\<in>set rest. \<not> test (rule_pattern r) path"
  shows "lastMatching (earlier @ [later] @ rest) path = Some later"
  using find_append_last [of "\<lambda>rule. test (rule_pattern rule) path" later rest earlier] assms
  by (simp add: find_reversed_lastMatching [symmetric])

text \<open>
  The walk over the object, with the rules in the order the walk is given them: the
  fields of what it returns are the fields of the object that last-declared-wins keeps,
  each under its full dotted key path.
\<close>

lemma leaves_of_walk:
  "(case getToInclude rules v path of None \<Rightarrow> [] | Some w \<Rightarrow> leavesOf path w)
     = filter (keeps (rev rules)) (leavesOf path v)"
  "leavesAll path (getToIncludeAll rules vs path) = filter (keeps (rev rules)) (leavesAll path vs)"
  "leavesEntries pfx (applyFieldRules kvs rules pfx)
     = filter (keeps (rev rules)) (leavesEntries pfx kvs)"
proof (induction rules v path and rules vs path and kvs rules pfx
        rule: getToInclude_getToIncludeAll_applyFieldRules.induct)
  case (1 rules vs fullKey)
  then show ?case
    by (cases "getToIncludeAll rules vs fullKey = []") (simp_all add: Let_def)
next
  case (2 rules kvs fullKey)
  then show ?case
    by (cases "applyFieldRules kvs rules (fullKey @ ''.'') = []") (simp_all add: Let_def)
next
  case (5 rules v vs fullKey)
  then show ?case
    by (cases "getToInclude rules v fullKey") simp_all
next
  case (7 key v kvs rules pfx)
  show ?case
  proof (cases "key = ''$'' \<or> key = ''_''")
    case True
    with 7 show ?thesis
      by (simp add: reservedKey_def)
  next
    case False
    with 7 show ?thesis
      by (cases "getToInclude rules v (pfx @ key)") (auto simp: reservedKey_def)
  qed
qed (simp_all add: lastMatching_rev split: option.splits)

lemma leaves_of_getFields:
  assumes "processFieldRules patterns = Inr declared"
  shows "\<exists>result. getFields object patterns = Inr result
           \<and> leavesEntries [] result = filter (keeps declared) (leavesEntries [] object)"
  using assms leaves_of_walk(3) [of "[]" object "rev declared"]
  by (simp add: getFields_def)

text \<open>
  Claim C3. A rule text with a leading \<^verbatim>\<open>!\<close> compiles to an exclude rule for the rest
  of the text; one with a leading \<^verbatim>\<open>\!\<close> compiles to an include rule for the glob
  that starts with the bang, and the keys it matches start with a literal \<^verbatim>\<open>!\<close>; any
  other text is an include rule. The rules keep the order of the texts; a text that
  does not compile makes the projection throw. Evaluation is last-declared-wins at
  every depth of the object: the fields of the projection are exactly those fields of
  the object, each taken with its full dotted key path (through nested objects and
  arrays), for which the last declared rule that matches the key path is an include
  rule; what stands under a reserved key is passed as it is, and what stands under
  \<^verbatim>\<open>__proto__\<close> is dropped. That rule is the first rule of the reversed list that
  matches, and it decides whatever the rules declared before it are.
\<close>

theorem rules_last_declared_wins:
  "processFieldRule (CHR ''!'' # g)
     = map_sum id (\<lambda>re. \<lparr>rule_include = False, rule_pattern = re\<rparr>) (globToRegExp g)
   \<and> processFieldRule (backslash # CHR ''!'' # g)
       = map_sum id (\<lambda>re. \<lparr>rule_include = True, rule_pattern = re\<rparr>) (globToRegExp (CHR ''!'' # g))
   \<and> (\<forall>r k. processFieldRule (backslash # CHR ''!'' # g) = Inr r \<and> test (rule_pattern r) k \<longrightarrow>
          rule_include r \<and> prefix ''!'' k)
   \<and> (\<not> prefix ''!'' pat \<and> \<not> prefix [backslash, CHR ''!''] pat \<longrightarrow>
         processFieldRule pat
           = map_sum id (\<lambda>re. \<lparr>rule_include = True, rule_pattern = re\<rparr>) (globToRegExp pat))
   \<and> (\<forall>declared. processFieldRules patterns = Inr declared \<longrightarrow>
         length declared = length patterns
         \<and> (\<forall>i<length patterns. processFieldRule (patterns ! i) = Inr (declared ! i))
         \<and> (\<exists>result.
               getFields object patterns = Inr result
               \<and> leavesEntries [] result = filter (keeps declared) (leavesEntries [] object)))
   \<and> (\<forall>e. processFieldRules patterns = Inl e \<longrightarrow> getFields object patterns = Inl e)
   \<and> lastMatching rules path = find (\<lambda>rule. test (rule_pattern rule) path) (rev rules)
   \<and> (\<forall>earlier later rest.
         rules = earlier @ [later] @ rest
         \<and> test (rule_pattern later) path \<and> (\<forall>r\<in>set rest. \<not> test (rule_pattern r) path) \<longrightarrow>
           lastMatching rules path = Some later)"
proof -
  have exclude: "processFieldRule (CHR ''!'' # g)
     = map_sum id (\<lambda>re. \<lparr>rule_include = False, rule_pattern = re\<rparr>) (globToRegExp g)"
    using processFieldRule_exclude [of g] by simp
  have escaped: "processFieldRule (backslash # CHR ''!'' # g)
       = map_sum id (\<lambda>re. \<lparr>rule_include = True, rule_pattern = re\<rparr>) (globToRegExp (CHR ''!'' # g))"
    using processFieldRule_escaped_bang [of g] by simp
  have literal: "rule_include r \<and> prefix ''!'' k"
    if "processFieldRule (backslash # CHR ''!'' # g) = Inr r \<and> test (rule_pattern r) k" for r k
  proof -
    from that escaped obtain re where re: "globToRegExp (CHR ''!'' # g) = Inr re"
      and r: "r = \<lparr>rule_include = True, rule_pattern = re\<rparr>"
      by (cases "globToRegExp (CHR ''!'' # g)") auto
    from literal_bang [OF re] obtain tl where "re = (Lit (CHR ''!''), Once) # tl"
      by blast
    with that r obtain k' where "k = CHR ''!'' # k'"
      using test_literal_head [of "CHR ''!''" tl k] by auto
    with r show ?thesis
      by simp
  qed
  have throws: "getFields object patterns = Inl e" if "processFieldRules patterns = Inl e" for e
    using that by (simp add: getFields_def)
  have wins: "lastMatching rules path = Some later"
    if "rules = earlier @ [later] @ rest
         \<and> test (rule_pattern later) path \<and> (\<forall>r\<in>set rest. \<not> test (rule_pattern r) path)"
    for earlier later rest
    using that lastMatching_later [of later path rest earlier] by blast
  from exclude escaped literal processFieldRule_plain [of pat]
    processFieldRules_nth [of patterns] leaves_of_getFields [of patterns _ object] throws
    find_reversed_lastMatching [of path rules] wins
  show ?thesis
    by (intro conjI allI impI) (blast | simp)+
qed

theorem rules_last_declared_wins_witness:
  "processFieldRules [''**'', ''!a.b'', ''!d''] = Inr threeRules
   \<and> leavesEntries [] deepObject
       = [Field ''a.b'' (Num 1), Field ''a.c'' (Num 2), Field ''d.e'' (Num 3), Field ''d'' (Num 4),
          Prototype ''__proto__'' (Num 5), Passed ''$'' (Str ''x'')]
   \<and> (\<exists>result.
         getFields deepObject [''**'', ''!a.b'', ''!d''] = Inr result
         \<and> leavesEntries [] result
             = [Field ''a.c'' (Num 2), Field ''d.e'' (Num 3), Passed ''$'' (Str ''x'')])
   \<and> getFields deepObject [''**'', ''!a.b'', ''!d'']
       = Inr [(''a'', Obj [(''c'', Num 2)]), (''d'', Arr [Obj [(''e'', Num 3)]]), (''$'', Str ''x'')]
   \<and> lastMatching threeRules ''a.b'' = Some (threeRules ! 1)
   \<and> lastMatching threeRules ''a.c'' = Some (threeRules ! 0)
   \<and> processFieldRule (backslash # ''!a'')
       = Inr \<lparr>rule_include = True,
              rule_pattern = [(Lit (CHR ''!''), Once), (Lit (CHR ''a''), Once)]\<rparr>
   \<and> prefix ''!'' ''!a''
   \<and> processFieldRule ''a.b''
       = map_sum id (\<lambda>re. \<lparr>rule_include = True, rule_pattern = re\<rparr>) (globToRegExp ''a.b'')
   \<and> getFields deepObject [''a'', ''****''] = Inl RegExp_SyntaxError
   \<and> getFields twoFields [''*'', ''!a''] = Inr [(''b'', Num 2)]
   \<and> getFields twoFields [''!a'', ''*''] = Inr twoFields
   \<and> getFields [(''!a'', Num 1), (''a'', Num 2)] [backslash # ''!a''] = Inr [(''!a'', Num 1)]"
proof -
  let ?bang = "\<lparr>rule_include = True,
                rule_pattern = [(Lit (CHR ''!''), Once), (Lit (CHR ''a''), Once)]\<rparr>"
  have c: "processFieldRules [''**'', ''!a.b'', ''!d''] = Inr threeRules"
    by code_simp
  have l: "leavesEntries [] deepObject
       = [Field ''a.b'' (Num 1), Field ''a.c'' (Num 2), Field ''d.e'' (Num 3), Field ''d'' (Num 4),
          Prototype ''__proto__'' (Num 5), Passed ''$'' (Str ''x'')]"
    by code_simp
  have k: "filter (keeps threeRules) (leavesEntries [] deepObject)
       = [Field ''a.c'' (Num 2), Field ''d.e'' (Num 3), Passed ''$'' (Str ''x'')]"
    by code_simp
  note inst = rules_last_declared_wins
                [where patterns = "[''**'', ''!a.b'', ''!d'']" and object = deepObject
                   and rules = threeRules and g = "''a''" and pat = "''a.b''"]
  from inst c
  have "\<exists>result.
         getFields deepObject [''**'', ''!a.b'', ''!d''] = Inr result
         \<and> leavesEntries [] result = filter (keeps threeRules) (leavesEntries [] deepObject)"
    by blast
  then have 1: "\<exists>result.
         getFields deepObject [''**'', ''!a.b'', ''!d''] = Inr result
         \<and> leavesEntries [] result
             = [Field ''a.c'' (Num 2), Field ''d.e'' (Num 3), Passed ''$'' (Str ''x'')]"
    unfolding k .
  have later: "threeRules = [threeRules ! 0] @ [threeRules ! 1] @ [threeRules ! 2]
      \<and> test (rule_pattern (threeRules ! 1)) ''a.b''
      \<and> (\<forall>r\<in>set [threeRules ! 2]. \<not> test (rule_pattern r) ''a.b'')"
    by code_simp
  from inst [where path = "''a.b''"] later
  have 2: "lastMatching threeRules ''a.b'' = Some (threeRules ! 1)"
    by blast
  have first: "threeRules = [] @ [threeRules ! 0] @ [threeRules ! 1, threeRules ! 2]
      \<and> test (rule_pattern (threeRules ! 0)) ''a.c''
      \<and> (\<forall>r\<in>set [threeRules ! 1, threeRules ! 2]. \<not> test (rule_pattern r) ''a.c'')"
    by code_simp
  from inst [where path = "''a.c''"] first
  have 3: "lastMatching threeRules ''a.c'' = Some (threeRules ! 0)"
    by blast
  have bang: "processFieldRule (backslash # ''!a'') = Inr ?bang \<and> test (rule_pattern ?bang) ''!a''"
    by code_simp
  from inst [where path = "''a.b''"] bang
  have 4: "rule_include ?bang \<and> prefix ''!'' ''!a''"
    by blast
  have plain: "\<not> prefix ''!'' ''a.b'' \<and> \<not> prefix [backslash, CHR ''!''] ''a.b''"
    by code_simp
  from inst [where path = "''a.b''"] plain
  have 5: "processFieldRule ''a.b''
       = map_sum id (\<lambda>re. \<lparr>rule_include = True, rule_pattern = re\<rparr>) (globToRegExp ''a.b'')"
    by blast
  have bad: "processFieldRules [''a'', ''****''] = Inl RegExp_SyntaxError"
    by code_simp
  from rules_last_declared_wins [where patterns = "[''a'', ''****'']" and object = deepObject] bad
  have 6: "getFields deepObject [''a'', ''****''] = Inl RegExp_SyntaxError"
    by blast
  have rest: "getFields deepObject [''**'', ''!a.b'', ''!d'']
       = Inr [(''a'', Obj [(''c'', Num 2)]), (''d'', Arr [Obj [(''e'', Num 3)]]), (''$'', Str ''x'')]"
    "getFields twoFields [''*'', ''!a''] = Inr [(''b'', Num 2)]"
    "getFields twoFields [''!a'', ''*''] = Inr twoFields"
    "getFields [(''!a'', Num 1), (''a'', Num 2)] [backslash # ''!a''] = Inr [(''!a'', Num 1)]"
    by code_simp+
  from c l 1 2 3 bang 4 5 6 rest show ?thesis
    by blast
qed

end
